theory Spec2Isabelle
  imports Complex_Main "HOL-Library.Sublist" "HOL-Library.Log_Nat"
begin

section \<open>Values of the JavaScript runtime\<close>

subsection \<open>Numbers\<close>

text \<open>
  A number is an IEEE 754 double: not-a-number, an infinity, or a finite value, held as
  the rational number it denotes (the sign of zero is not kept: the program never
  observes it; \<open>Finite r\<close> is a number when \<open>r\<close> is the value of a double).
  \<open>roundDouble\<close> rounds a rational to the nearest double, ties to the even significand: in the binade \<open>2 ^ e \<le> |x| < 2 ^ (e + 1)\<close> the doubles are the multiples
  of \<open>2 ^ (e - 52)\<close>, below \<open>2 ^ -1022\<close> they are the multiples of \<open>2 ^ -1074\<close>, and a
  result of \<open>2 ^ 1024\<close> or more (one whose binade is 1024 or more) is an infinity.
\<close>

datatype number = NaN | PlusInfinity | MinusInfinity | Finite rat

definition pow2 :: "int \<Rightarrow> rat" where
  "pow2 k = (if 0 \<le> k then 2 ^ nat k else 1 / 2 ^ nat (- k))"

definition binade :: "rat \<Rightarrow> int" where
  "binade a =
     (case quotient_of a of (p, q) \<Rightarrow>
        (let k = bitlen p - bitlen q in if pow2 k \<le> a then k else k - 1))"

definition roundHalfEven :: "rat \<Rightarrow> int" where
  "roundHalfEven q =
     (let n = \<lfloor>q\<rfloor>; r = q - of_int n
      in if r < 1 / 2 then n else if 1 / 2 < r then n + 1 else if even n then n else n + 1)"

definition roundDouble :: "rat \<Rightarrow> number" where
  "roundDouble x =
     (if x = 0 then Finite 0
      else
        (let a = \<bar>x\<bar>;
             ulp = pow2 (max (binade a) (- 1022) - 52);
             r = of_int (roundHalfEven (a / ulp)) * ulp
         in if 1024 \<le> binade r then (if 0 < x then PlusInfinity else MinusInfinity)
            else Finite (if 0 < x then r else - r)))"

text \<open>The operator \<^verbatim>\<open>-\<close> on two numbers, \<^verbatim>\<open>Math.abs\<close>, and \<^verbatim>\<open>x < c\<close> for a rational \<open>c\<close>.\<close>

fun minusNumber :: "number \<Rightarrow> number \<Rightarrow> number" where
  "minusNumber NaN y = NaN"
| "minusNumber PlusInfinity NaN = NaN"
| "minusNumber PlusInfinity PlusInfinity = NaN"
| "minusNumber PlusInfinity MinusInfinity = PlusInfinity"
| "minusNumber PlusInfinity (Finite b) = PlusInfinity"
| "minusNumber MinusInfinity NaN = NaN"
| "minusNumber MinusInfinity PlusInfinity = MinusInfinity"
| "minusNumber MinusInfinity MinusInfinity = NaN"
| "minusNumber MinusInfinity (Finite b) = MinusInfinity"
| "minusNumber (Finite a) NaN = NaN"
| "minusNumber (Finite a) PlusInfinity = MinusInfinity"
| "minusNumber (Finite a) MinusInfinity = PlusInfinity"
| "minusNumber (Finite a) (Finite b) = roundDouble (a - b)"

fun absNumber :: "number \<Rightarrow> number" where
  "absNumber NaN = NaN"
| "absNumber PlusInfinity = PlusInfinity"
| "absNumber MinusInfinity = PlusInfinity"
| "absNumber (Finite a) = Finite \<bar>a\<bar>"

fun lessThan :: "number \<Rightarrow> rat \<Rightarrow> bool" where
  "lessThan NaN c = False"
| "lessThan PlusInfinity c = False"
| "lessThan MinusInfinity c = True"
| "lessThan (Finite a) c = (a < c)"

text \<open>A number is falsy when it is zero or not-a-number.\<close>

fun truthyNumber :: "number \<Rightarrow> bool" where
  "truthyNumber NaN = False"
| "truthyNumber (Finite a) = (a \<noteq> 0)"
| "truthyNumber PlusInfinity = True"
| "truthyNumber MinusInfinity = True"

subsection \<open>Strings\<close>

text \<open>
  Strings are byte strings. \<open>str_includes s search\<close> is \<^verbatim>\<open>s.includes(search)\<close>; a number
  inside a template literal is its decimal digits. \<^verbatim>\<open>toLowerCase\<close>, \<^verbatim>\<open>trim\<close> and the
  length of a string are the platform's (section on the platform).
\<close>

definition str_includes :: "string \<Rightarrow> string \<Rightarrow> bool" where
  "str_includes s search = sublist search s"

definition digit :: "nat \<Rightarrow> char" where
  "digit d = ''0123456789'' ! d"

function showNat :: "nat \<Rightarrow> string" where
  "showNat n = (if n < 10 then [digit n] else showNat (n div 10) @ [digit (n mod 10)])"
  by pat_completeness auto
termination
  by (relation "measure id") auto

declare showNat.simps [simp del]

subsection \<open>What \<^verbatim>\<open>JSON.parse\<close> returns\<close>

text \<open>
  The completion service answers with text, and what the program reads out of it is
  whatever JSON the text holds: the elements of \<^verbatim>\<open>parsed.casinos\<close> and \<^verbatim>\<open>parsed.offers\<close> need
  not be objects, and their fields need not be strings or numbers. An object is the list
  of its own properties, each key once.
\<close>

datatype json =
    JNull
  | JBool bool
  | JNumber number
  | JString string
  | JArray "json list"
  | JObject "(string \<times> json) list"

text \<open>
  \<^verbatim>\<open>v.key\<close> on a value that is not \<^verbatim>\<open>null\<close> (\<open>None\<close> is \<^verbatim>\<open>undefined\<close>; none of the keys the
  program reads is a property of a boolean, a number, a string or an array), and the
  truth value of a value in \<^verbatim>\<open>v || 0\<close>.
\<close>

fun get :: "string \<Rightarrow> json \<Rightarrow> json option" where
  "get key (JObject fields) = map_of fields key"
| "get key JNull = None"
| "get key (JBool b) = None"
| "get key (JNumber n) = None"
| "get key (JString s) = None"
| "get key (JArray xs) = None"

fun truthy :: "json \<Rightarrow> bool" where
  "truthy JNull = False"
| "truthy (JBool b) = b"
| "truthy (JNumber n) = truthyNumber n"
| "truthy (JString s) = (s \<noteq> [])"
| "truthy (JArray xs) = True"
| "truthy (JObject fields) = True"

section \<open>Documents of the store (the mongoose schemas)\<close>

text \<open>
  The fields follow \<^verbatim>\<open>casinoSchema\<close>, \<^verbatim>\<open>offerSchema\<close> and \<^verbatim>\<open>researchRunSchema\<close>; a document
  holds values of the types of its schema, because mongoose casts what it is given or
  rejects it. Object identifiers, \<^verbatim>\<open>casinodb_id\<close>, \<^verbatim>\<open>verified\<close>, \<^verbatim>\<open>notes\<close>, the dates of venues
  and offers and the start date of a run are left out: the orchestrator never reads
  them. A venue has a name and a jurisdiction code (the orchestrator dereferences
  \<^verbatim>\<open>c.name\<close> of every stored venue without a guard); the fields of an offer that the
  orchestrator reads through \<^verbatim>\<open>?.\<close> or \<^verbatim>\<open>|| 0\<close> may be absent. The elements of the three
  lists of a comparison have the schema type \<^verbatim>\<open>Object\<close>: their fields hold the values as
  they are. The summary of a run is a nested path, so every run document has one; its
  two totals are absent until they are written.
\<close>

record casino =
  name :: string
  state :: string
  stateAbbreviation :: string
  website :: "string option"
  licenseNumber :: "string option"
  discovered :: bool

record offer =
  casinoName :: string
  offerState :: string
  offerStateAbbreviation :: string
  offerName :: "string option"
  offerType :: "string option"
  expectedDeposit :: "number option"
  expectedBonus :: "number option"
  description :: "string option"
  bonusAmount :: "number option"
  bonusType :: "string option"
  terms :: "string option"
  source :: string

datatype runStatus = Pending | InProgress | Completed | Failed

record missingEntry =
  m_state :: string
  m_casinos :: "string list"

record offerView =
  v_name :: "json option"
  v_type :: "json option"
  v_deposit :: "json option"
  v_bonus :: "json option"
  v_description :: "json option"

record comparison =
  c_casinoName :: string
  c_state :: string
  currentOffers :: "offerView list"
  discoveredOffers :: "offerView list"
  newOffers :: "offerView list"

record runSummary =
  totalMissingCasinos :: "nat option"
  totalNewOffers :: "nat option"
  statesProcessed :: "string list"

record researchRun =
  status :: runStatus
  completedAt :: "string option"
  currentState :: "string option"
  currentCasino :: "string option"
  offersProcessed :: nat
  casinosProcessed :: nat
  progressLog :: "string list"
  missingCasinos :: "missingEntry list"
  offerComparisons :: "comparison list"
  summary :: runSummary

section \<open>The platform\<close>

text \<open>
  A call of the completion service is named by the stage that builds its prompt and
  the arguments the prompt is built from. \<open>UpstreamError\<close> stands for a call of
  \<^verbatim>\<open>callClaudeAPI\<close> that throws or that returns something that is no text, on which
  \<^verbatim>\<open>response.match\<close> throws.
\<close>

datatype call = Discover string | Research string string

datatype completion = UpstreamError | Content string

text \<open>
  The places where the orchestrator throws a \<^verbatim>\<open>TypeError\<close> on what the completion
  service returned: the loop over a value that is not iterable (line 321); a venue
  candidate that is \<^verbatim>\<open>null\<close>, or whose name is \<^verbatim>\<open>undefined\<close>, \<^verbatim>\<open>null\<close> or not a string (line
  322); \<^verbatim>\<open>filter\<close> on a value that is no array (line 373); an offer that is \<^verbatim>\<open>null\<close> (lines
  375, 376, 397 and 420); \<^verbatim>\<open>?.toLowerCase()\<close> on a name or a type of a discovered offer
  that is not a string (lines 375 to 377), and on the type of a new offer (line 402).
\<close>

datatype site =
    NotIterable
  | NullCasino
  | UndefinedName
  | NullName
  | NameNotString
  | FilterNotFunction
  | NullOffer
  | DiscoveredNameNotString
  | DiscoveredTypeNotString
  | NewTypeNotString

text \<open>
  The parts of the platform the program runs on.
  \<^item> \<open>clock\<close>: the text of \<^verbatim>\<open>new Date().toISOString()\<close> read when the log of the run holds
    \<open>n\<close> lines (no two dates that the run stores are read at the same length of the log).
  \<^item> \<open>callClaudeAPI\<close>: the answer of the completion service to the n-th call.
  \<^item> \<open>JSON_parse\<close>: \<^verbatim>\<open>JSON.parse\<close>, \<open>None\<close> when it throws.
  \<^item> \<open>toLowerCase\<close>, \<open>trim\<close>, \<open>stringLength\<close>: \<^verbatim>\<open>String.prototype.toLowerCase\<close>,
    \<^verbatim>\<open>String.prototype.trim\<close> and the \<^verbatim>\<open>length\<close> of a string.
  \<^item> \<open>toText\<close>: the text of a value inside a template literal.
  \<^item> \<open>RegExp\<close>: \<^verbatim>\<open>new RegExp(pattern, 'i')\<close>, \<open>Inl\<close> the message of the \<^verbatim>\<open>SyntaxError\<close> it
    throws, \<open>Inr\<close> the test of a stored name against the pattern.
  \<^item> \<open>ToNumber\<close>: the number that \<^verbatim>\<open>-\<close> makes of an operand that is a string, an array or
    an object.
  \<^item> \<open>errorMessage\<close>: the message of the \<^verbatim>\<open>TypeError\<close> thrown at a place.
  \<^item> \<open>castString\<close>, \<open>castNumber\<close>, \<open>castObjectId\<close>: what mongoose makes of a value given
    for a path of type \<^verbatim>\<open>String\<close> (a value that is neither \<^verbatim>\<open>null\<close> nor a string), of type
    \<^verbatim>\<open>Number\<close> (neither \<^verbatim>\<open>null\<close> nor a number) and for \<^verbatim>\<open>_id\<close>; \<open>None\<close> and \<open>False\<close> when the
    cast fails. \<open>validationMessage\<close>: the message of the \<^verbatim>\<open>ValidationError\<close> of a model
    for the paths that failed and the values given for them.
\<close>

record env =
  clock :: "nat \<Rightarrow> string"
  callClaudeAPI :: "nat \<Rightarrow> call \<Rightarrow> completion"
  JSON_parse :: "string \<Rightarrow> json option"
  toLowerCase :: "string \<Rightarrow> string"
  trim :: "string \<Rightarrow> string"
  stringLength :: "string \<Rightarrow> nat"
  toText :: "json \<Rightarrow> string"
  RegExp :: "string \<Rightarrow> string + (string \<Rightarrow> bool)"
  ToNumber :: "json \<Rightarrow> number"
  errorMessage :: "site \<Rightarrow> string"
  castString :: "json \<Rightarrow> string option"
  castNumber :: "json \<Rightarrow> number option"
  castObjectId :: "json \<Rightarrow> bool"
  validationMessage :: "string \<Rightarrow> (string \<times> json) list \<Rightarrow> string"

text \<open>
  What is thrown inside \<^verbatim>\<open>performResearch\<close>: a \<^verbatim>\<open>TypeError\<close> or a \<^verbatim>\<open>SyntaxError\<close> of the
  engine, a \<^verbatim>\<open>ValidationError\<close> of mongoose, or the error of a store operation that the
  database rejects. Each carries its message.
\<close>

datatype js_error = TypeError string | SyntaxError string | ValidationError string | StoreError string

fun message :: "js_error \<Rightarrow> string" where
  "message (TypeError m) = m"
| "message (SyntaxError m) = m"
| "message (ValidationError m) = m"
| "message (StoreError m) = m"

text \<open>
  The store: the two collections in insertion order, the run document of this run, the
  calls made to the completion service so far, and the number of operations the run
  has sent to the database so far. The database answers the n-th operation of a run or
  rejects it: \<open>faults n\<close> is \<open>None\<close>, or the message of the rejection. An operation that is
  rejected changes nothing. \<open>reliable\<close> is the database that rejects nothing.
\<close>

record world =
  casinos :: "casino list"
  offers :: "offer list"
  run :: researchRun
  calls :: "call list"
  ops :: nat

type_synonym faults = "nat \<Rightarrow> string option"

definition reliable :: faults where
  "reliable n = None"

section \<open>Steps of an asynchronous function\<close>

text \<open>
  A step of \<^verbatim>\<open>performResearch\<close> runs on the store and either throws, \<open>Inl\<close> what was thrown
  and the store at that moment, or returns, \<open>Inr\<close> its value and the store after it.
  \<open>bind\<close> is sequencing: what follows a step that throws is not run. \<open>compute\<close> is a
  computation that does not touch the store; \<open>query\<close> and \<open>update\<close> are one operation of
  the database each, a read and a write.
\<close>

type_synonym 'a step = "world \<Rightarrow> (js_error \<times> world) + ('a \<times> world)"

definition ret :: "'a \<Rightarrow> 'a step" where
  "ret x w = Inr (x, w)"

definition bind :: "'a step \<Rightarrow> ('a \<Rightarrow> 'b step) \<Rightarrow> 'b step" where
  "bind a k w = (case a w of Inl thrown \<Rightarrow> Inl thrown | Inr (x, w') \<Rightarrow> k x w')"

definition compute :: "js_error + 'a \<Rightarrow> 'a step" where
  "compute r w = (case r of Inl thrown \<Rightarrow> Inl (thrown, w) | Inr x \<Rightarrow> Inr (x, w))"

definition query :: "faults \<Rightarrow> (world \<Rightarrow> 'a) \<Rightarrow> 'a step" where
  "query f read w =
     (case f (ops w) of
        Some msg \<Rightarrow> Inl (StoreError msg, w\<lparr>ops := Suc (ops w)\<rparr>)
      | None \<Rightarrow> Inr (read w, w\<lparr>ops := Suc (ops w)\<rparr>))"

definition update :: "faults \<Rightarrow> (world \<Rightarrow> world) \<Rightarrow> unit step" where
  "update f write w =
     (case f (ops w) of
        Some msg \<Rightarrow> Inl (StoreError msg, w\<lparr>ops := Suc (ops w)\<rparr>)
      | None \<Rightarrow> Inr ((), write (w\<lparr>ops := Suc (ops w)\<rparr>)))"

section \<open>The stages\<close>

text \<open>
  \<^verbatim>\<open>response.match(/\{[\s\S]*\}/)\<close>: from the first opening brace to the last closing
  brace after it. A stage returns \<^verbatim>\<open>parsed.casinos || []\<close> (\<^verbatim>\<open>parsed.offers || []\<close>), and the
  empty array when the call, the match or the parse fails (or when the parsed value is
  \<^verbatim>\<open>null\<close>, whose property the stage cannot read).
\<close>

definition jsonMatch :: "string \<Rightarrow> string option" where
  "jsonMatch response =
     (let fromBrace = dropWhile (\<lambda>c. c \<noteq> CHR ''{'') response;
          match = rev (dropWhile (\<lambda>c. c \<noteq> CHR ''}'') (rev fromBrace))
      in if match = [] then None else Some match)"

definition orEmpty :: "json option \<Rightarrow> json" where
  "orEmpty v = (case v of None \<Rightarrow> JArray [] | Some x \<Rightarrow> if truthy x then x else JArray [])"

definition propertyOf :: "env \<Rightarrow> string \<Rightarrow> completion \<Rightarrow> json" where
  "propertyOf e key answer =
     (case answer of
        UpstreamError \<Rightarrow> JArray []
      | Content response \<Rightarrow>
          (case jsonMatch response of
             None \<Rightarrow> JArray []
           | Some jsonText \<Rightarrow>
               (case JSON_parse e jsonText of
                  None \<Rightarrow> JArray []
                | Some parsed \<Rightarrow> orEmpty (get key parsed))))"

definition casinosOf :: "env \<Rightarrow> completion \<Rightarrow> json" where
  "casinosOf e answer = propertyOf e ''casinos'' answer"

definition offersOf :: "env \<Rightarrow> completion \<Rightarrow> json" where
  "offersOf e answer = propertyOf e ''offers'' answer"

definition noteCall :: "call \<Rightarrow> world \<Rightarrow> world" where
  "noteCall c w = w\<lparr>calls := calls w @ [c]\<rparr>"

definition discoverCasinosByState :: "env \<Rightarrow> string \<Rightarrow> json step" where
  "discoverCasinosByState e stateName w =
     Inr (casinosOf e (callClaudeAPI e (length (calls w)) (Discover stateName)),
          noteCall (Discover stateName) w)"

definition researchCasinoOffers :: "env \<Rightarrow> string \<Rightarrow> string \<Rightarrow> json step" where
  "researchCasinoOffers e cName stateName w =
     Inr (offersOf e (callClaudeAPI e (length (calls w)) (Research cName stateName)),
          noteCall (Research cName stateName) w)"

text \<open>
  \<^verbatim>\<open>value.length\<close> inside a template literal: the number of elements of an array, the
  length of a string, the text of the property \<^verbatim>\<open>length\<close> of an object that has one, and
  \<^verbatim>\<open>undefined\<close> on any other value a stage returns.
\<close>

definition lengthText :: "env \<Rightarrow> json \<Rightarrow> string" where
  "lengthText e v =
     (case v of
        JArray xs \<Rightarrow> showNat (length xs)
      | JString s \<Rightarrow> showNat (stringLength e s)
      | JObject properties \<Rightarrow>
          (case map_of properties ''length'' of None \<Rightarrow> ''undefined'' | Some x \<Rightarrow> toText e x)
      | _ \<Rightarrow> ''undefined'')"

section \<open>Offer matching\<close>

text \<open>
  \<^verbatim>\<open>dOffer.key?.toLowerCase()\<close> on an element of the discovered offers: reading a property of
  \<^verbatim>\<open>null\<close> throws, an absent or \<^verbatim>\<open>null\<close> property gives \<^verbatim>\<open>undefined\<close> (\<open>None\<close>), a string is
  lower-cased, and any other value has no method \<^verbatim>\<open>toLowerCase\<close>.
\<close>

definition lowerOf :: "env \<Rightarrow> site \<Rightarrow> string \<Rightarrow> json \<Rightarrow> js_error + string option" where
  "lowerOf e notString key dOffer =
     (if dOffer = JNull then Inl (TypeError (errorMessage e NullOffer))
      else
        (case get key dOffer of
           None \<Rightarrow> Inr None
         | Some JNull \<Rightarrow> Inr None
         | Some (JString s) \<Rightarrow> Inr (Some (toLowerCase e s))
         | Some other \<Rightarrow> Inl (TypeError (errorMessage e notString))))"

text \<open>
  \<^verbatim>\<open>String.prototype.includes\<close> searches for the text of its argument, and the text of
  \<^verbatim>\<open>undefined\<close> is \<^verbatim>\<open>undefined\<close>.
\<close>

definition searchText :: "string option \<Rightarrow> string" where
  "searchText arg = (case arg of None \<Rightarrow> ''undefined'' | Some s \<Rightarrow> s)"

text \<open>
  Line 375 and 376. The first operand of \<^verbatim>\<open>||\<close> is \<^verbatim>\<open>undefined\<close> when the stored offer has
  no name, and then its argument is not evaluated; the second operand is evaluated only
  when the first is not \<^verbatim>\<open>true\<close>.
\<close>

definition nameMatch :: "env \<Rightarrow> offer \<Rightarrow> json \<Rightarrow> js_error + bool" where
  "nameMatch e cOffer dOffer =
     (case (case offerName cOffer of
              None \<Rightarrow> Inr False
            | Some sName \<Rightarrow>
                (case lowerOf e DiscoveredNameNotString ''offerName'' dOffer of
                   Inl thrown \<Rightarrow> Inl thrown
                 | Inr arg \<Rightarrow> Inr (str_includes (toLowerCase e sName) (searchText arg)))) of
        Inl thrown \<Rightarrow> Inl thrown
      | Inr True \<Rightarrow> Inr True
      | Inr False \<Rightarrow>
          (case lowerOf e DiscoveredNameNotString ''offerName'' dOffer of
             Inl thrown \<Rightarrow> Inl thrown
           | Inr None \<Rightarrow> Inr False
           | Inr (Some dName) \<Rightarrow>
               Inr (str_includes dName (searchText (map_option (toLowerCase e) (offerName cOffer))))))"

text \<open>Line 377: \<^verbatim>\<open>===\<close> on two values that are each a string or \<^verbatim>\<open>undefined\<close>.\<close>

definition typeMatch :: "env \<Rightarrow> offer \<Rightarrow> json \<Rightarrow> js_error + bool" where
  "typeMatch e cOffer dOffer =
     (case lowerOf e DiscoveredTypeNotString ''offerType'' dOffer of
        Inl thrown \<Rightarrow> Inl thrown
      | Inr dType \<Rightarrow> Inr (map_option (toLowerCase e) (offerType cOffer) = dType))"

text \<open>
  Line 378. \<^verbatim>\<open>x || 0\<close> is 0 for a falsy \<open>x\<close>, and \<^verbatim>\<open>-\<close> turns its operands into numbers:
  \<^verbatim>\<open>true\<close> into 1, and a string, an array or an object into what the platform makes of
  it. The difference is a double.
\<close>

definition orZero :: "number option \<Rightarrow> number" where
  "orZero v = (case v of None \<Rightarrow> Finite 0 | Some n \<Rightarrow> if truthyNumber n then n else Finite 0)"

definition orZeroJson :: "json option \<Rightarrow> json" where
  "orZeroJson v =
     (case v of None \<Rightarrow> JNumber (Finite 0) | Some x \<Rightarrow> if truthy x then x else JNumber (Finite 0))"

definition toNumber :: "env \<Rightarrow> json \<Rightarrow> number" where
  "toNumber e v =
     (case v of
        JNumber n \<Rightarrow> n
      | JBool b \<Rightarrow> Finite (if b then 1 else 0)
      | JNull \<Rightarrow> Finite 0
      | _ \<Rightarrow> ToNumber e v)"

definition amountMatch :: "env \<Rightarrow> offer \<Rightarrow> json \<Rightarrow> bool" where
  "amountMatch e cOffer dOffer =
     lessThan
       (absNumber (minusNumber (orZero (expectedBonus cOffer))
                     (toNumber e (orZeroJson (get ''expectedBonus'' dOffer)))))
       50"

text \<open>
  The callback of \<^verbatim>\<open>some\<close> (lines 374 to 381): the three constants are computed one after
  the other, whatever the first two are, and then combined.
\<close>

definition offerMatches :: "env \<Rightarrow> offer \<Rightarrow> json \<Rightarrow> js_error + bool" where
  "offerMatches e cOffer dOffer =
     (case nameMatch e cOffer dOffer of
        Inl thrown \<Rightarrow> Inl thrown
      | Inr names \<Rightarrow>
          (case typeMatch e cOffer dOffer of
             Inl thrown \<Rightarrow> Inl thrown
           | Inr types \<Rightarrow> Inr (names \<or> (types \<and> amountMatch e cOffer dOffer))))"

text \<open>\<^verbatim>\<open>currentOffers.some(...)\<close>: in order, up to the first stored offer that matches.\<close>

fun offerExists :: "env \<Rightarrow> offer list \<Rightarrow> json \<Rightarrow> js_error + bool" where
  "offerExists e [] dOffer = Inr False"
| "offerExists e (cOffer # rest) dOffer =
     (case offerMatches e cOffer dOffer of
        Inl thrown \<Rightarrow> Inl thrown
      | Inr True \<Rightarrow> Inr True
      | Inr False \<Rightarrow> offerExists e rest dOffer)"

text \<open>
  \<^verbatim>\<open>discoveredOffers.filter(dOffer => !exists)\<close> (lines 373 to 383) on the elements of
  an array, in order.
\<close>

fun findNewOffers :: "env \<Rightarrow> offer list \<Rightarrow> json list \<Rightarrow> js_error + json list" where
  "findNewOffers e current [] = Inr []"
| "findNewOffers e current (dOffer # rest) =
     (case offerExists e current dOffer of
        Inl thrown \<Rightarrow> Inl thrown
      | Inr exists \<Rightarrow>
          (case findNewOffers e current rest of
             Inl thrown \<Rightarrow> Inl thrown
           | Inr new \<Rightarrow> Inr (if exists then new else dOffer # new)))"

text \<open>
  \<^verbatim>\<open>Offer.find({ casinoName, stateAbbreviation, source: 'internal-api' })\<close>: the
  reference offers of a venue.
\<close>

definition findCurrentOffers :: "string \<Rightarrow> string \<Rightarrow> offer list \<Rightarrow> offer list" where
  "findCurrentOffers cName abbrev os =
     filter (\<lambda>stored. casinoName stored = cName \<and> offerStateAbbreviation stored = abbrev \<and>
                        source stored = ''internal-api'')
       os"

section \<open>Venue matching\<close>

text \<open>
  \<^verbatim>\<open>casino.name.toLowerCase()\<close> (line 322) returns only for an object whose name is a
  string; \<open>candidateName\<close> is that name.
\<close>

definition candidateName :: "env \<Rightarrow> json \<Rightarrow> js_error + string" where
  "candidateName e casino =
     (if casino = JNull then Inl (TypeError (errorMessage e NullCasino))
      else
        (case get ''name'' casino of
           None \<Rightarrow> Inl (TypeError (errorMessage e UndefinedName))
         | Some JNull \<Rightarrow> Inl (TypeError (errorMessage e NullName))
         | Some (JString nm) \<Rightarrow> Inr nm
         | Some other \<Rightarrow> Inl (TypeError (errorMessage e NameNotString))))"

text \<open>\<^verbatim>\<open>new RegExp(`^${casino.name}$`, 'i')\<close> (line 325).\<close>

definition nameRegExp :: "env \<Rightarrow> string \<Rightarrow> js_error + (string \<Rightarrow> bool)" where
  "nameRegExp e nm =
     (case RegExp e (''^'' @ nm @ ''$'') of
        Inl msg \<Rightarrow> Inl (SyntaxError msg)
      | Inr matches \<Rightarrow> Inr matches)"

text \<open>
  \<^verbatim>\<open>Casino.findOne({ $or: [{ name: regex, stateAbbreviation }, { name: normalizedName,
  stateAbbreviation }] })\<close> on the whole collection.
\<close>

definition findOneCasino :: "(string \<Rightarrow> bool) \<Rightarrow> string \<Rightarrow> string \<Rightarrow> casino list \<Rightarrow> casino option" where
  "findOneCasino regex normalizedName abbrev cs =
     find (\<lambda>c. (regex (name c) \<and> stateAbbreviation c = abbrev) \<or>
               (name c = normalizedName \<and> stateAbbreviation c = abbrev)) cs"

text \<open>
  \<^verbatim>\<open>for (const casino of discoveredCasinos)\<close> (line 321): the elements of an array. A
  string that a stage returns is not empty, and its first character has no name, so the
  first turn of the loop throws at line 322; any other value is not iterable.
\<close>

definition candidates :: "env \<Rightarrow> json \<Rightarrow> js_error + json list" where
  "candidates e discoveredCasinos =
     (case discoveredCasinos of
        JArray ds \<Rightarrow> Inr ds
      | JString s \<Rightarrow> Inl (TypeError (errorMessage e UndefinedName))
      | _ \<Rightarrow> Inl (TypeError (errorMessage e NotIterable)))"

section \<open>What mongoose stores\<close>

text \<open>
  The value a document gets at a path of type \<^verbatim>\<open>String\<close> or \<^verbatim>\<open>Number\<close> from the value given
  for it: \<open>None\<close> when the cast fails, otherwise the value stored (\<open>None\<close> inside for an
  absent or \<^verbatim>\<open>null\<close> value). A string stays as it is at a path of type \<^verbatim>\<open>String\<close>, and a
  number that is not not-a-number at a path of type \<^verbatim>\<open>Number\<close>.
\<close>

definition stringPath :: "env \<Rightarrow> json option \<Rightarrow> string option option" where
  "stringPath e given =
     (case given of
        None \<Rightarrow> Some None
      | Some JNull \<Rightarrow> Some None
      | Some (JString s) \<Rightarrow> Some (Some s)
      | Some other \<Rightarrow> map_option Some (castString e other))"

definition numberPath :: "env \<Rightarrow> json option \<Rightarrow> number option option" where
  "numberPath e given =
     (case given of
        None \<Rightarrow> Some None
      | Some JNull \<Rightarrow> Some None
      | Some (JNumber n) \<Rightarrow> if n = NaN then map_option Some (castNumber e (JNumber n)) else Some (Some n)
      | Some other \<Rightarrow> map_option Some (castNumber e other))"

definition idPath :: "env \<Rightarrow> json option \<Rightarrow> bool" where
  "idPath e given = (case given of None \<Rightarrow> True | Some JNull \<Rightarrow> True | Some other \<Rightarrow> castObjectId e other)"

text \<open>
  The paths given a value that cannot be cast, with that value; and the value stored at
  a path (a document with a path that failed is not stored).
\<close>

definition failed :: "string \<Rightarrow> json option \<Rightarrow> bool \<Rightarrow> (string \<times> json) list" where
  "failed path given ok = (case given of Some v \<Rightarrow> if ok then [] else [(path, v)] | None \<Rightarrow> [])"

definition kept :: "'a option option \<Rightarrow> 'a option" where
  "kept cast = (case cast of None \<Rightarrow> None | Some v \<Rightarrow> v)"

text \<open>
  The document of \<^verbatim>\<open>Casino.create\<close> (lines 332 to 339): the properties of the candidate,
  then the five that the call sets itself. Of the candidate's own properties the schema
  has \<^verbatim>\<open>name\<close> (a string here), \<^verbatim>\<open>website\<close>, \<^verbatim>\<open>licenseNumber\<close>, \<^verbatim>\<open>casinodb_id\<close> and \<^verbatim>\<open>_id\<close>; the last
  two are cast and not kept in the model.
\<close>

definition casinoDocument :: "env \<Rightarrow> string \<Rightarrow> string \<Rightarrow> json \<Rightarrow> string \<Rightarrow> js_error + casino" where
  "casinoDocument e stateName abbrev casino nm =
     (let site = stringPath e (get ''website'' casino);
          licence = stringPath e (get ''licenseNumber'' casino);
          bad = failed ''website'' (get ''website'' casino) (site \<noteq> None) @
                failed ''licenseNumber'' (get ''licenseNumber'' casino) (licence \<noteq> None) @
                failed ''casinodb_id'' (get ''casinodb_id'' casino)
                  (numberPath e (get ''casinodb_id'' casino) \<noteq> None) @
                failed ''_id'' (get ''_id'' casino) (idPath e (get ''_id'' casino))
      in if bad \<noteq> [] then Inl (ValidationError (validationMessage e ''Casino'' bad))
         else Inr \<lparr>name = nm, state = stateName, stateAbbreviation = abbrev,
                   website = kept site, licenseNumber = kept licence,
                   discovered = True\<rparr>)"

text \<open>
  The document of \<^verbatim>\<open>Offer.create\<close> (lines 392 to 407). The argument is built first, in
  the order of the source: reading a property of \<^verbatim>\<open>null\<close> throws at \<^verbatim>\<open>offer.offerName\<close>, and
  a type that is neither absent nor a string has no \<^verbatim>\<open>toLowerCase\<close>. Then mongoose casts
  the values.
\<close>

definition bonusTypeOf :: "env \<Rightarrow> json \<Rightarrow> js_error + string" where
  "bonusTypeOf e dOffer =
     (case lowerOf e NewTypeNotString ''offerType'' dOffer of
        Inl thrown \<Rightarrow> Inl thrown
      | Inr None \<Rightarrow> Inr ''unknown''
      | Inr (Some t) \<Rightarrow> Inr (if t = [] then ''unknown'' else t))"

definition offerDocument :: "env \<Rightarrow> casino \<Rightarrow> string \<Rightarrow> string \<Rightarrow> json \<Rightarrow> js_error + offer" where
  "offerDocument e c stateName abbrev dOffer =
     (case bonusTypeOf e dOffer of
        Inl thrown \<Rightarrow> Inl thrown
      | Inr bType \<Rightarrow>
          (let nm = stringPath e (get ''offerName'' dOffer);
               ty = stringPath e (get ''offerType'' dOffer);
               deposit = numberPath e (Some (orZeroJson (get ''expectedDeposit'' dOffer)));
               bonus = numberPath e (Some (orZeroJson (get ''expectedBonus'' dOffer)));
               descr = stringPath e (get ''description'' dOffer);
               trms = stringPath e (get ''terms'' dOffer);
               bad = failed ''offerName'' (get ''offerName'' dOffer) (nm \<noteq> None) @
                     failed ''offerType'' (get ''offerType'' dOffer) (ty \<noteq> None) @
                     failed ''expectedDeposit'' (Some (orZeroJson (get ''expectedDeposit'' dOffer)))
                       (deposit \<noteq> None) @
                     failed ''expectedBonus'' (Some (orZeroJson (get ''expectedBonus'' dOffer)))
                       (bonus \<noteq> None) @
                     failed ''bonusAmount'' (Some (orZeroJson (get ''expectedBonus'' dOffer)))
                       (bonus \<noteq> None) @
                     failed ''description'' (get ''description'' dOffer) (descr \<noteq> None) @
                     failed ''terms'' (get ''terms'' dOffer) (trms \<noteq> None)
           in if bad \<noteq> [] then Inl (ValidationError (validationMessage e ''Offer'' bad))
              else Inr \<lparr>casinoName = name c, offerState = stateName, offerStateAbbreviation = abbrev,
                        offerName = kept nm, offerType = kept ty,
                        expectedDeposit = kept deposit,
                        expectedBonus = kept bonus,
                        description = kept descr,
                        bonusAmount = kept bonus,
                        bonusType = Some bType,
                        terms = kept trms, source = ''ai-research''\<rparr>))"

section \<open>The progress log\<close>

text \<open>The pictographs of the messages, as the bytes of the source file.\<close>

definition glyphStart :: string where
  "glyphStart = [CHR 0xC3, CHR 0xB0, CHR 0xC5, CHR 0xB8, CHR 0xC5, CHR 0xA1, CHR 0xE2, CHR 0x82, CHR 0xAC]"

definition glyphState :: string where
  "glyphState = [CHR 0xC3, CHR 0xB0, CHR 0xC5, CHR 0xB8, CHR 0xE2, CHR 0x80, CHR 0x9C]"

definition glyphSearch :: string where
  "glyphSearch = [CHR 0xC3, CHR 0xB0, CHR 0xC5, CHR 0xB8, CHR 0xE2, CHR 0x80, CHR 0x9D]"

definition glyphDone :: string where
  "glyphDone = [CHR 0xC3, CHR 0xA2, CHR 0xC5, CHR 0x93, CHR 0xE2, CHR 0x80, CHR 0xA6]"

definition glyphNew :: string where
  "glyphNew = [CHR 0xC3, CHR 0xA2, CHR 0xC5, CHR 0x93, CHR 0xC2, CHR 0xA8]"

definition glyphMissing :: string where
  "glyphMissing = [CHR 0xC3, CHR 0xB0, CHR 0xC5, CHR 0xB8, CHR 0xE2, CHR 0x80, CHR 0x9C, CHR 0xE2, CHR 0x80, CHR 0xB9]"

definition glyphCasino :: string where
  "glyphCasino = [CHR 0xC3, CHR 0xB0, CHR 0xC5, CHR 0xB8, CHR 0xC5, CHR 0xBD, CHR 0xC2, CHR 0xB0]"

definition glyphOffers :: string where
  "glyphOffers = [CHR 0xC3, CHR 0xB0, CHR 0xC5, CHR 0xB8, CHR 0xE2, CHR 0x80, CHR 0x99, CHR 0xC2, CHR 0xB0]"

definition glyphFailed :: string where
  "glyphFailed = [CHR 0xC3, CHR 0xA2, CHR 0xC5, CHR 0x92]"

text \<open>
  \<^verbatim>\<open>logProgress\<close> is one write: it appends the stamped message to the log of the run
  document. (The array \<^verbatim>\<open>progressLog\<close> local to \<^verbatim>\<open>performResearch\<close> receives the same line
  and is never read.)
\<close>

definition pushLog :: "env \<Rightarrow> string \<Rightarrow> world \<Rightarrow> world" where
  "pushLog e msg w =
     w\<lparr>run := (run w)\<lparr>progressLog :=
          progressLog (run w) @ [''['' @ clock e (length (progressLog (run w))) @ ''] '' @ msg]\<rparr>\<rparr>"

definition logProgress :: "faults \<Rightarrow> env \<Rightarrow> string \<Rightarrow> unit step" where
  "logProgress f e msg = update f (pushLog e msg)"

section \<open>The orchestrator\<close>

text \<open>The local variables of \<^verbatim>\<open>performResearch\<close> that live across the iterations.\<close>

record vars =
  var_missingCasinos :: "missingEntry list"
  var_offerComparisons :: "comparison list"
  var_totalNewOffers :: nat
  var_totalCasinosProcessed :: nat
  var_totalOffersProcessed :: nat

text \<open>\<^verbatim>\<open>Object.entries(states)\<close>, in insertion order.\<close>

definition states :: "(string \<times> string) list" where
  "states = [(''NJ'', ''New Jersey''), (''MI'', ''Michigan''), (''PA'', ''Pennsylvania''),
             (''WV'', ''West Virginia'')]"

subsection \<open>The loop over the discovered venues (lines 321 to 342)\<close>

text \<open>
  For each candidate: its name (line 322), the pattern (line 325), the search (line
  323), and for a candidate that is not found the document, its insertion and the log
  line (lines 331 to 340). Whatever throws leaves the loop with the store as it is at
  that moment; the list \<^verbatim>\<open>missing\<close> is local and lost.
\<close>

definition insertCasino :: "casino \<Rightarrow> world \<Rightarrow> world" where
  "insertCasino document w = w\<lparr>casinos := casinos w @ [document]\<rparr>"

fun storeDiscovered ::
  "faults \<Rightarrow> env \<Rightarrow> string \<Rightarrow> string \<Rightarrow> json list \<Rightarrow> string list \<Rightarrow> string list step" where
  "storeDiscovered f e stateName abbrev [] missing = ret missing"
| "storeDiscovered f e stateName abbrev (casino # rest) missing =
     bind (compute (candidateName e casino)) (\<lambda>nm.
     bind (compute (nameRegExp e nm)) (\<lambda>regex.
     bind (query f (\<lambda>w. findOneCasino regex (trim e (toLowerCase e nm)) abbrev (casinos w)))
       (\<lambda>existingCasino.
          case existingCasino of
            Some found \<Rightarrow> storeDiscovered f e stateName abbrev rest missing
          | None \<Rightarrow>
              bind (compute (casinoDocument e stateName abbrev casino nm)) (\<lambda>document.
              bind (update f (insertCasino document)) (\<lambda>u.
              bind (logProgress f e (''  '' @ glyphNew @ '' Discovered new casino: '' @ nm)) (\<lambda>u.
              storeDiscovered f e stateName abbrev rest (missing @ [nm])))))))"

subsection \<open>One venue of the loop over \<^verbatim>\<open>allCasinos\<close> (lines 355 to 438)\<close>

text \<open>\<^verbatim>\<open>discoveredOffers.filter\<close> exists only on an array (line 373).\<close>

definition offersArray :: "env \<Rightarrow> json \<Rightarrow> js_error + json list" where
  "offersArray e discoveredOs =
     (case discoveredOs of
        JArray ds \<Rightarrow> Inr ds
      | _ \<Rightarrow> Inl (TypeError (errorMessage e FilterNotFunction)))"

text \<open>The loop over the new offers (lines 391 to 408): one document and one insertion each.\<close>

definition insertOffer :: "offer \<Rightarrow> world \<Rightarrow> world" where
  "insertOffer document w = w\<lparr>offers := offers w @ [document]\<rparr>"

fun createOffers :: "faults \<Rightarrow> env \<Rightarrow> casino \<Rightarrow> string \<Rightarrow> string \<Rightarrow> json list \<Rightarrow> unit step" where
  "createOffers f e c stateName abbrev [] = ret ()"
| "createOffers f e c stateName abbrev (dOffer # rest) =
     bind (compute (offerDocument e c stateName abbrev dOffer)) (\<lambda>document.
     bind (update f (insertOffer document)) (\<lambda>u.
     createOffers f e c stateName abbrev rest))"

text \<open>The entry of a comparison (lines 410 to 432); reading a property of \<^verbatim>\<open>null\<close> throws.\<close>

definition viewStored :: "offer \<Rightarrow> offerView" where
  "viewStored cOffer =
     \<lparr>v_name = map_option JString (offerName cOffer), v_type = map_option JString (offerType cOffer),
      v_deposit = map_option JNumber (expectedDeposit cOffer),
      v_bonus = map_option JNumber (expectedBonus cOffer), v_description = None\<rparr>"

definition viewDiscovered :: "env \<Rightarrow> json \<Rightarrow> js_error + offerView" where
  "viewDiscovered e dOffer =
     (if dOffer = JNull then Inl (TypeError (errorMessage e NullOffer))
      else Inr \<lparr>v_name = get ''offerName'' dOffer, v_type = get ''offerType'' dOffer,
                v_deposit = get ''expectedDeposit'' dOffer, v_bonus = get ''expectedBonus'' dOffer,
                v_description = None\<rparr>)"

definition viewNew :: "env \<Rightarrow> json \<Rightarrow> js_error + offerView" where
  "viewNew e dOffer =
     (case viewDiscovered e dOffer of
        Inl thrown \<Rightarrow> Inl thrown
      | Inr v \<Rightarrow> Inr (v\<lparr>v_description := get ''description'' dOffer\<rparr>))"

fun mapViews :: "(json \<Rightarrow> js_error + offerView) \<Rightarrow> json list \<Rightarrow> js_error + offerView list" where
  "mapViews view [] = Inr []"
| "mapViews view (dOffer # rest) =
     (case view dOffer of
        Inl thrown \<Rightarrow> Inl thrown
      | Inr v \<Rightarrow> (case mapViews view rest of Inl thrown \<Rightarrow> Inl thrown | Inr vs \<Rightarrow> Inr (v # vs)))"

definition comparisonOf ::
  "env \<Rightarrow> casino \<Rightarrow> string \<Rightarrow> offer list \<Rightarrow> json list \<Rightarrow> json list \<Rightarrow> js_error + comparison" where
  "comparisonOf e c stateName current discoveredOs new =
     (case mapViews (viewDiscovered e) discoveredOs of
        Inl thrown \<Rightarrow> Inl thrown
      | Inr discoveredViews \<Rightarrow>
          (case mapViews (viewNew e) new of
             Inl thrown \<Rightarrow> Inl thrown
           | Inr newViews \<Rightarrow>
               Inr \<lparr>c_casinoName = name c, c_state = stateName,
                    currentOffers = map viewStored current,
                    discoveredOffers = discoveredViews, newOffers = newViews\<rparr>))"

text \<open>
  Lines 385 to 433, for a list of new offers that is not empty: the two counters, the
  log line, the insertions, the entry of the comparison.
\<close>

definition recordNewOffers ::
  "faults \<Rightarrow> env \<Rightarrow> string \<Rightarrow> string \<Rightarrow> casino \<Rightarrow> offer list \<Rightarrow> json list \<Rightarrow> json list \<Rightarrow> vars
     \<Rightarrow> vars step" where
  "recordNewOffers f e stateName abbrev c current discoveredOs new v =
     (let v1 = v\<lparr>var_totalNewOffers := var_totalNewOffers v + length new,
                  var_totalOffersProcessed := var_totalOffersProcessed v + length new\<rparr>
      in bind (logProgress f e
                 (''    '' @ glyphOffers @ '' Found '' @ showNat (length new) @
                  '' new offers for '' @ name c)) (\<lambda>u.
         bind (createOffers f e c stateName abbrev new) (\<lambda>u.
         bind (compute (comparisonOf e c stateName current discoveredOs new)) (\<lambda>entry.
         ret (v1\<lparr>var_offerComparisons := var_offerComparisons v1 @ [entry]\<rparr>)))))"

definition setCurrentCasino :: "string \<Rightarrow> nat \<Rightarrow> world \<Rightarrow> world" where
  "setCurrentCasino cName n w = w\<lparr>run := (run w)\<lparr>currentCasino := Some cName, casinosProcessed := n\<rparr>\<rparr>"

definition setOffersProcessed :: "nat \<Rightarrow> world \<Rightarrow> world" where
  "setOffersProcessed n w = w\<lparr>run := (run w)\<lparr>offersProcessed := n\<rparr>\<rparr>"

text \<open>
  Lines 357 to 383: the pointer to the venue, the research call, the reference offers of
  the venue, and the discovered offers that are new beside them.
\<close>

definition surveyOffers ::
  "faults \<Rightarrow> env \<Rightarrow> string \<Rightarrow> string \<Rightarrow> casino \<Rightarrow> nat \<Rightarrow> (offer list \<times> json list \<times> json list) step" where
  "surveyOffers f e stateName abbrev c n =
     bind (update f (setCurrentCasino (name c) n)) (\<lambda>u.
     bind (logProgress f e (''    '' @ glyphCasino @ '' Processing: '' @ name c @ ''...'')) (\<lambda>u.
     bind (researchCasinoOffers e (name c) stateName) (\<lambda>discoveredOffers.
     bind (logProgress f e (''      Found '' @ lengthText e discoveredOffers @ '' offers'')) (\<lambda>u.
     bind (query f (\<lambda>w. findCurrentOffers (name c) abbrev (offers w))) (\<lambda>current.
     bind (compute (offersArray e discoveredOffers)) (\<lambda>discoveredOs.
     bind (compute (findNewOffers e current discoveredOs)) (\<lambda>new.
     ret (current, discoveredOs, new))))))))"

definition researchCasino :: "faults \<Rightarrow> env \<Rightarrow> string \<Rightarrow> string \<Rightarrow> casino \<Rightarrow> vars \<Rightarrow> vars step" where
  "researchCasino f e stateName abbrev c v =
     (let v1 = v\<lparr>var_totalCasinosProcessed := var_totalCasinosProcessed v + 1\<rparr>
      in bind (surveyOffers f e stateName abbrev c (var_totalCasinosProcessed v1))
           (\<lambda>(current, discoveredOs, new).
         bind (if new \<noteq> []
               then recordNewOffers f e stateName abbrev c current discoveredOs new v1
               else ret v1) (\<lambda>v2.
         bind (update f (setOffersProcessed (var_totalOffersProcessed v2))) (\<lambda>u.
         ret v2))))"

fun researchAll :: "faults \<Rightarrow> env \<Rightarrow> string \<Rightarrow> string \<Rightarrow> casino list \<Rightarrow> vars \<Rightarrow> vars step" where
  "researchAll f e stateName abbrev [] v = ret v"
| "researchAll f e stateName abbrev (c # rest) v =
     bind (researchCasino f e stateName abbrev c v) (\<lambda>v'.
     researchAll f e stateName abbrev rest v')"

subsection \<open>One jurisdiction of the loop over \<^verbatim>\<open>Object.entries(states)\<close> (lines 303 to 441)\<close>

text \<open>
  In three parts: up to the log line that follows discovery (lines 304 to 313); the
  reference venues of the jurisdiction (line 315, whose result and the set
  \<^verbatim>\<open>existingNames\<close> of line 316 are never read) and the loop over the discovered venues;
  and from the missing-venue entry to the end (lines 344 to 440).
\<close>

definition setCurrentState :: "string \<Rightarrow> world \<Rightarrow> world" where
  "setCurrentState stateName w = w\<lparr>run := (run w)\<lparr>currentState := Some stateName, currentCasino := None\<rparr>\<rparr>"

definition discoverPhase :: "faults \<Rightarrow> env \<Rightarrow> string \<Rightarrow> string \<Rightarrow> json step" where
  "discoverPhase f e abbrev stateName =
     bind (update f (setCurrentState stateName)) (\<lambda>u.
     bind (logProgress f e
             ([CHR 0x0A] @ glyphState @ '' Researching '' @ stateName @ '' ('' @ abbrev @ '')...'')) (\<lambda>u.
     bind (logProgress f e (''  '' @ glyphSearch @ '' Discovering casinos in '' @ stateName @ ''...'')) (\<lambda>u.
     bind (discoverCasinosByState e stateName) (\<lambda>discoveredCasinos.
     bind (logProgress f e
             (''  '' @ glyphDone @ '' Found '' @ lengthText e discoveredCasinos @
              '' casinos in official records'')) (\<lambda>u.
     ret discoveredCasinos)))))"

definition venuePhase :: "faults \<Rightarrow> env \<Rightarrow> string \<Rightarrow> string \<Rightarrow> json \<Rightarrow> string list step" where
  "venuePhase f e abbrev stateName discoveredCasinos =
     bind (query f (\<lambda>w. filter (\<lambda>c. stateAbbreviation c = abbrev \<and> \<not> discovered c) (casinos w)))
       (\<lambda>existingCasinos.
     bind (compute (candidates e discoveredCasinos)) (\<lambda>ds.
     storeDiscovered f e stateName abbrev ds []))"

definition researchPhase :: "faults \<Rightarrow> env \<Rightarrow> string \<Rightarrow> string \<Rightarrow> string list \<Rightarrow> vars \<Rightarrow> vars step" where
  "researchPhase f e abbrev stateName missing v =
     (let v1 = (if missing \<noteq> []
                then v\<lparr>var_missingCasinos := var_missingCasinos v @
                          [\<lparr>m_state = stateName, m_casinos = missing\<rparr>]\<rparr>
                else v)
      in bind (if missing \<noteq> []
               then logProgress f e
                      (''  '' @ glyphMissing @ '' Missing casinos in '' @ stateName @ '': '' @
                       showNat (length missing))
               else logProgress f e (''  '' @ glyphDone @ '' No missing casinos in '' @ stateName)) (\<lambda>u.
         bind (query f (\<lambda>w. filter (\<lambda>c. stateAbbreviation c = abbrev) (casinos w))) (\<lambda>allCasinos.
         bind (logProgress f e
                 (''  '' @ glyphSearch @ '' Researching offers for '' @
                  showNat (length allCasinos) @ '' casinos in '' @ stateName @ ''...'')) (\<lambda>u.
         bind (researchAll f e stateName abbrev allCasinos v1) (\<lambda>v2.
         bind (logProgress f e
                 (''  '' @ glyphDone @ '' Completed '' @ stateName @ '' - Processed '' @
                  showNat (length allCasinos) @ '' casinos'')) (\<lambda>u.
         ret v2))))))"

definition processState :: "faults \<Rightarrow> env \<Rightarrow> string \<times> string \<Rightarrow> vars \<Rightarrow> vars step" where
  "processState f e entry v =
     bind (discoverPhase f e (fst entry) (snd entry)) (\<lambda>discoveredCasinos.
     bind (venuePhase f e (fst entry) (snd entry) discoveredCasinos) (\<lambda>missing.
     researchPhase f e (fst entry) (snd entry) missing v))"

fun statesLoop :: "faults \<Rightarrow> env \<Rightarrow> (string \<times> string) list \<Rightarrow> vars \<Rightarrow> vars step" where
  "statesLoop f e [] v = ret v"
| "statesLoop f e (entry # rest) v =
     bind (processState f e entry v) (\<lambda>v'. statesLoop f e rest v')"

subsection \<open>The whole of \<^verbatim>\<open>performResearch\<close>\<close>

text \<open>
  The body of the \<^verbatim>\<open>try\<close> block: the read of the run document (line 287, the result is
  never used), the first log line, the loop, the three closing log lines and the final
  update of the run document.
\<close>

definition initialVars :: vars where
  "initialVars =
     \<lparr>var_missingCasinos = [], var_offerComparisons = [], var_totalNewOffers = 0,
      var_totalCasinosProcessed = 0, var_totalOffersProcessed = 0\<rparr>"

definition countMissing :: "missingEntry list \<Rightarrow> nat" where
  "countMissing ms = foldl (\<lambda>sum s. sum + length (m_casinos s)) 0 ms"

definition beforeLoop :: "faults \<Rightarrow> env \<Rightarrow> unit step" where
  "beforeLoop f e =
     bind (query f run) (\<lambda>document.
     logProgress f e (glyphStart @ '' Research started for all states''))"

definition markCompleted :: "env \<Rightarrow> vars \<Rightarrow> world \<Rightarrow> world" where
  "markCompleted e v w =
     w\<lparr>run := (run w)
          \<lparr>status := Completed,
           completedAt := Some (clock e (length (progressLog (run w)))),
           currentState := None,
           currentCasino := None,
           missingCasinos := var_missingCasinos v,
           offerComparisons := var_offerComparisons v,
           summary :=
             \<lparr>totalMissingCasinos = Some (countMissing (var_missingCasinos v)),
              totalNewOffers = Some (var_totalNewOffers v),
              statesProcessed = map snd states\<rparr>\<rparr>\<rparr>"

definition afterLoop :: "faults \<Rightarrow> env \<Rightarrow> vars \<Rightarrow> unit step" where
  "afterLoop f e v =
     bind (logProgress f e ([CHR 0x0A] @ glyphDone @ '' Research completed successfully'')) (\<lambda>u.
     bind (logProgress f e
             (''   Total missing casinos: '' @ showNat (countMissing (var_missingCasinos v)))) (\<lambda>u.
     bind (logProgress f e (''   Total new offers: '' @ showNat (var_totalNewOffers v))) (\<lambda>u.
     update f (markCompleted e v))))"

definition researchBody :: "faults \<Rightarrow> env \<Rightarrow> unit step" where
  "researchBody f e =
     bind (beforeLoop f e) (\<lambda>u.
     bind (statesLoop f e states initialVars) (\<lambda>v.
     afterLoop f e v))"

text \<open>
  The \<^verbatim>\<open>catch\<close> block (lines 462 to 471): a log line and an update of the run document.
  Each is a write that the database may reject; then the promise of \<^verbatim>\<open>performResearch\<close>
  is rejected and the rest of the block is not run.
\<close>

definition markFailed :: "env \<Rightarrow> world \<Rightarrow> world" where
  "markFailed e w =
     w\<lparr>run := (run w)
          \<lparr>status := Failed,
           completedAt := Some (clock e (length (progressLog (run w)))),
           currentState := None,
           currentCasino := None\<rparr>\<rparr>"

definition researchFailed :: "faults \<Rightarrow> env \<Rightarrow> js_error \<Rightarrow> unit step" where
  "researchFailed f e thrown =
     bind (logProgress f e (glyphFailed @ '' Research failed: '' @ message thrown)) (\<lambda>u.
     update f (markFailed e))"

definition worldOf :: "(js_error \<times> world) + ('a \<times> world) \<Rightarrow> world" where
  "worldOf r = (case r of Inl (thrown, w) \<Rightarrow> w | Inr (x, w) \<Rightarrow> w)"

definition performResearch :: "faults \<Rightarrow> env \<Rightarrow> world \<Rightarrow> world" where
  "performResearch f e w =
     (case researchBody f e w of
        Inl (thrown, w') \<Rightarrow> worldOf (researchFailed f e thrown w')
      | Inr (u, w') \<Rightarrow> w')"

text \<open>
  \<^verbatim>\<open>POST /api/research/run\<close>: the run document is created with the defaults of the
  schema and status \<^verbatim>\<open>in-progress\<close>, and \<^verbatim>\<open>performResearch\<close> runs on it.
\<close>

definition createRun :: researchRun where
  "createRun =
     \<lparr>status = InProgress, completedAt = None, currentState = None, currentCasino = None,
      offersProcessed = 0, casinosProcessed = 0, progressLog = [], missingCasinos = [],
      offerComparisons = [],
      summary = \<lparr>totalMissingCasinos = None, totalNewOffers = None, statesProcessed = []\<rparr>\<rparr>"

definition initialWorld :: "casino list \<Rightarrow> offer list \<Rightarrow> world" where
  "initialWorld cs os = \<lparr>casinos = cs, offers = os, run = createRun, calls = [], ops = 0\<rparr>"

definition startRun :: "faults \<Rightarrow> env \<Rightarrow> casino list \<Rightarrow> offer list \<Rightarrow> world" where
  "startRun f e cs os = performResearch f e (initialWorld cs os)"

section \<open>Observations on a run\<close>

text \<open>
  The calls of the discovery stage among the calls made; the calls a run makes when it
  finds no new venue; a candidate on which venue matching throws; an answer of the
  completion service that holds no JSON object that parses; a name that holds the word
  \<^verbatim>\<open>undefined\<close>; the text of a field of a discovered offer when it is a string; and the
  identity key of a venue.
\<close>

definition isDiscover :: "call \<Rightarrow> bool" where
  "isDiscover c = (case c of Discover s \<Rightarrow> True | Research n s \<Rightarrow> False)"

definition discoverCalls :: "world \<Rightarrow> call list" where
  "discoverCalls w = filter isDiscover (calls w)"

definition expectedCalls :: "casino list \<Rightarrow> call list" where
  "expectedCalls cs =
     concat (map (\<lambda>entry. Discover (snd entry) #
                    map (\<lambda>c. Research (name c) (snd entry))
                      (filter (\<lambda>c. stateAbbreviation c = fst entry) cs)) states)"

definition unmatchable :: "env \<Rightarrow> json \<Rightarrow> bool" where
  "unmatchable e casino =
     (case candidateName e casino of Inl thrown \<Rightarrow> True | Inr nm \<Rightarrow> isl (nameRegExp e nm))"

definition noJsonObject :: "env \<Rightarrow> completion \<Rightarrow> bool" where
  "noJsonObject e answer =
     (case answer of
        UpstreamError \<Rightarrow> True
      | Content response \<Rightarrow>
          (case jsonMatch response of None \<Rightarrow> True | Some jsonText \<Rightarrow> JSON_parse e jsonText = None))"

definition textOf :: "string \<Rightarrow> json \<Rightarrow> string option" where
  "textOf key dOffer = (case get key dOffer of Some (JString s) \<Rightarrow> Some s | _ \<Rightarrow> None)"

definition saysUndefined :: "env \<Rightarrow> string option \<Rightarrow> bool" where
  "saysUndefined e nm = (case nm of None \<Rightarrow> False | Some s \<Rightarrow> sublist ''undefined'' (toLowerCase e s))"

definition identityKey :: "env \<Rightarrow> casino \<Rightarrow> string \<times> string" where
  "identityKey e c = (trim e (toLowerCase e (name c)), stateAbbreviation c)"

section \<open>Scenarios\<close>

subsection \<open>A platform for the examples\<close>

text \<open>
  The examples run on ASCII text, where \<^verbatim>\<open>toLowerCase\<close> changes the letters A to Z,
  \<^verbatim>\<open>trim\<close> removes space, tab, line feed, vertical tab, form feed and carriage return, and
  the length of a string is the number of its bytes. Their patterns are \<^verbatim>\<open>^\<close>, a name and
  \<^verbatim>\<open>$\<close>: a name without a metacharacter matches the stored names equal to it up to the
  case of letters, and the one name with a metacharacter that occurs opens a group that
  is never closed. The messages are those of V8. The examples give no value of a wrong
  type to a path of a schema, no string, array or object as an amount, and no object in
  the place of a list, so that nothing is cast, turned into a number or into text, and
  no document fails validation: the values of \<open>toText\<close>, of \<open>ToNumber\<close> and of the last four
  fields are never read.
\<close>

definition lowerChar :: "char \<Rightarrow> char" where
  "lowerChar c =
     (case map_of (zip ''ABCDEFGHIJKLMNOPQRSTUVWXYZ'' ''abcdefghijklmnopqrstuvwxyz'') c of
        None \<Rightarrow> c
      | Some l \<Rightarrow> l)"

definition asciiLower :: "string \<Rightarrow> string" where
  "asciiLower s = map lowerChar s"

definition isSpace :: "char \<Rightarrow> bool" where
  "isSpace c = (c \<in> set [CHR '' '', CHR 0x09, CHR 0x0A, CHR 0x0B, CHR 0x0C, CHR 0x0D])"

definition asciiTrim :: "string \<Rightarrow> string" where
  "asciiTrim s = rev (dropWhile isSpace (rev (dropWhile isSpace s)))"

definition metacharacter :: "char \<Rightarrow> bool" where
  "metacharacter c = (c = CHR 0x5C \<or> c \<in> set ''^$.*+?()[]{}|'')"

definition anchoredRegExp :: "string \<Rightarrow> string + (string \<Rightarrow> bool)" where
  "anchoredRegExp pattern =
     (let nm = butlast (tl pattern)
      in if list_ex metacharacter nm
         then Inl (''Invalid regular expression: /'' @ pattern @ ''/i: Unterminated group'')
         else Inr (\<lambda>stored. asciiLower stored = asciiLower nm))"

fun v8Message :: "site \<Rightarrow> string" where
  "v8Message NotIterable = ''discoveredCasinos is not iterable''"
| "v8Message NullCasino = ''Cannot read properties of null (reading 'name')''"
| "v8Message UndefinedName = ''Cannot read properties of undefined (reading 'toLowerCase')''"
| "v8Message NullName = ''Cannot read properties of null (reading 'toLowerCase')''"
| "v8Message NameNotString = ''casino.name.toLowerCase is not a function''"
| "v8Message FilterNotFunction = ''discoveredOffers.filter is not a function''"
| "v8Message NullOffer = ''Cannot read properties of null (reading 'offerName')''"
| "v8Message DiscoveredNameNotString = ''dOffer.offerName?.toLowerCase is not a function''"
| "v8Message DiscoveredTypeNotString = ''dOffer.offerType?.toLowerCase is not a function''"
| "v8Message NewTypeNotString = ''offer.offerType?.toLowerCase is not a function''"

definition answering :: "(string \<Rightarrow> completion) \<Rightarrow> (string \<Rightarrow> completion) \<Rightarrow> nat \<Rightarrow> call \<Rightarrow> completion" where
  "answering discovery research n c =
     (case c of Discover stateName \<Rightarrow> discovery stateName | Research cName stateName \<Rightarrow> research cName)"

subsection \<open>The JSON of the examples\<close>

definition venue :: "string \<Rightarrow> json" where
  "venue nm = JObject [(''name'', JString nm)]"

definition nameless :: json where
  "nameless = JObject [(''website'', JString ''https://example.com'')]"

definition amount :: "rat \<Rightarrow> json" where
  "amount a = JNumber (Finite a)"

definition bonusOffer :: "string \<Rightarrow> string \<Rightarrow> rat \<Rightarrow> json" where
  "bonusOffer nm ty bonus =
     JObject [(''offerName'', JString nm), (''offerType'', JString ty), (''expectedBonus'', amount bonus)]"

definition unnamedOffer :: "string \<Rightarrow> rat \<Rightarrow> json" where
  "unnamedOffer ty bonus = JObject [(''offerType'', JString ty), (''expectedBonus'', amount bonus)]"

definition casinosJson :: "json list \<Rightarrow> json" where
  "casinosJson ds = JObject [(''casinos'', JArray ds)]"

definition offersJson :: "json list \<Rightarrow> json" where
  "offersJson ds = JObject [(''offers'', JArray ds)]"

definition exampleParse :: "string \<Rightarrow> json option" where
  \<open>exampleParse t =
     map_of
       [(''{"casinos":[]}'', casinosJson []),
        (''{"offers":[]}'', offersJson []),
        (''{"casinos":[{"name":"Acme Casino"},{"name":"Beta Casino"}]}'',
           casinosJson [venue ''Acme Casino'', venue ''Beta Casino'']),
        (''{"offers":[{"offerName":"Welcome Bonus","offerType":"welcome","expectedBonus":120}]}'',
           offersJson [bonusOffer ''Welcome Bonus'' ''welcome'' 120]),
        (''{"offers":[{"offerName":"Sign-Up Bonus","offerType":"welcome","expectedBonus":200}]}'',
           offersJson [bonusOffer ''Sign-Up Bonus'' ''welcome'' 200]),
        (''{"offers":[{"offerName":"Sign-Up Bonus","offerType":"welcome","expectedBonus":200},null]}'',
           offersJson [bonusOffer ''Sign-Up Bonus'' ''welcome'' 200, JNull]),
        (''{"casinos":[{"website":"https://example.com"}]}'', casinosJson [nameless]),
        (''{"casinos":[{"name":"Beta Casino"},{"website":"https://example.com"}]}'',
           casinosJson [venue ''Beta Casino'', nameless]),
        (''{"casinos":[{"name":"Beta Casino"}]}'', casinosJson [venue ''Beta Casino'']),
        (''{"casinos":[{"name":"  golden nugget  "}]}'', casinosJson [venue ''  golden nugget  '']),
        (''{"casinos":[{"name":"Golden Nugget"},{"name":"Golden Nugget "}]}'',
           casinosJson [venue ''Golden Nugget'', venue ''Golden Nugget '']),
        (''{"casinos":[{"name":"Caesars (Windsor"}]}'', casinosJson [venue ''Caesars (Windsor''])]
       t\<close>

definition exampleEnv :: "(string \<Rightarrow> completion) \<Rightarrow> (string \<Rightarrow> completion) \<Rightarrow> env" where
  "exampleEnv discovery research =
     \<lparr>clock = (\<lambda>n. ''2025-01-01T00:00:00.000Z''),
      callClaudeAPI = answering discovery research,
      JSON_parse = exampleParse,
      toLowerCase = asciiLower,
      trim = asciiTrim,
      stringLength = length,
      toText = (\<lambda>v. ''[object Object]''),
      RegExp = anchoredRegExp,
      ToNumber = (\<lambda>v. NaN),
      errorMessage = v8Message,
      castString = (\<lambda>v. None),
      castNumber = (\<lambda>v. None),
      castObjectId = (\<lambda>v. False),
      validationMessage = (\<lambda>model bad. model @ '' validation failed'')\<rparr>"

text \<open>A platform whose completion service is never called, for the examples of offer matching.\<close>

definition silentEnv :: env where
  "silentEnv = exampleEnv (\<lambda>stateName. UpstreamError) (\<lambda>cName. UpstreamError)"

subsection \<open>Reference data\<close>

definition reference :: "string \<Rightarrow> casino" where
  "reference nm = \<lparr>name = nm, state = ''New Jersey'', stateAbbreviation = ''NJ'', website = None,
                   licenseNumber = None, discovered = False\<rparr>"

definition referenceOffer :: "string \<Rightarrow> string \<Rightarrow> string \<Rightarrow> rat \<Rightarrow> offer" where
  "referenceOffer cName nm ty bonus =
     \<lparr>casinoName = cName, offerState = ''New Jersey'', offerStateAbbreviation = ''NJ'',
      offerName = Some nm, offerType = Some ty, expectedDeposit = Some (Finite 0),
      expectedBonus = Some (Finite bonus), description = None, bonusAmount = Some (Finite bonus),
      bonusType = Some (asciiLower ty), terms = None, source = ''internal-api''\<rparr>"

definition storedOffer :: "string \<Rightarrow> string \<Rightarrow> rat \<Rightarrow> offer" where
  "storedOffer nm ty bonus = referenceOffer ''Acme Casino'' nm ty bonus"

text \<open>The double that \<^verbatim>\<open>JSON.parse\<close> makes of the text \<^verbatim>\<open>1e-15\<close>.\<close>

definition tiny :: rat where
  "tiny = 2535301200456459 / 2535301200456458802993406410752"

definition stored100 :: offer where
  "stored100 = referenceOffer ''Acme Casino'' ''Welcome Bonus'' ''Welcome'' 100"

definition acmeStore :: "casino list" where
  "acmeStore = [reference ''Acme Casino'']"

definition acmeOffers :: "offer list" where
  "acmeOffers = [referenceOffer ''Acme Casino'' ''Welcome Bonus'' ''welcome'' 100]"

subsection \<open>Completion services\<close>

definition onlyNJ :: "string \<Rightarrow> string \<Rightarrow> completion" where
  \<open>onlyNJ text stateName =
     (if stateName = ''New Jersey'' then Content text else Content ''{"casinos":[]}'')\<close>

definition noOffers :: "string \<Rightarrow> completion" where
  \<open>noOffers cName = Content ''Here you go: {"offers":[]} Let me know if you need more.''\<close>

definition scenarioEnv :: env where
  \<open>scenarioEnv =
     exampleEnv (onlyNJ ''{"casinos":[{"name":"Acme Casino"},{"name":"Beta Casino"}]}'')
       (\<lambda>cName.
          if cName = ''Acme Casino''
          then Content ''{"offers":[{"offerName":"Welcome Bonus","offerType":"welcome","expectedBonus":120}]}''
          else if cName = ''Beta Casino''
          then Content ''{"offers":[{"offerName":"Sign-Up Bonus","offerType":"welcome","expectedBonus":200}]}''
          else Content ''{"offers":[]}'')\<close>

definition namelessEnv :: env where
  \<open>namelessEnv = exampleEnv (onlyNJ ''{"casinos":[{"website":"https://example.com"}]}'') noOffers\<close>

definition partialEnv :: env where
  \<open>partialEnv =
     exampleEnv (onlyNJ ''{"casinos":[{"name":"Beta Casino"},{"website":"https://example.com"}]}'') noOffers\<close>


definition goldenEnv :: env where
  \<open>goldenEnv = exampleEnv (onlyNJ ''{"casinos":[{"name":"  golden nugget  "}]}'') noOffers\<close>

definition twiceEnv :: env where
  \<open>twiceEnv =
     exampleEnv (onlyNJ ''{"casinos":[{"name":"Golden Nugget"},{"name":"Golden Nugget "}]}'') noOffers\<close>

definition groupEnv :: env where
  \<open>groupEnv =
     exampleEnv (\<lambda>stateName. if stateName = ''Michigan''
                    then Content ''{"casinos":[{"name":"Caesars (Windsor"}]}''
                    else Content ''{"casinos":[]}'') noOffers\<close>

definition faultyEnv :: env where
  \<open>faultyEnv =
     exampleEnv (\<lambda>stateName.
                   if stateName = ''New Jersey'' then UpstreamError
                   else if stateName = ''Michigan'' then Content ''I could not find any casinos.''
                   else if stateName = ''Pennsylvania'' then Content ''{"casinos": [ ...''
                   else Content ''Sure! {casinos: none} Hope that helps.'')
       (\<lambda>cName. UpstreamError)\<close>

text \<open>A database that rejects every operation from the n-th on.\<close>

definition downFrom :: "nat \<Rightarrow> faults" where
  "downFrom n k = (if n \<le> k then Some ''connection lost'' else None)"

section \<open>Relations and conditions on the store\<close>

subsection \<open>Relations that every outcome of a step keeps\<close>

text \<open>
  \<open>keeps R a\<close>: the store in which \<open>a\<close> ends, returning or throwing, is related by \<open>R\<close> to
  the store in which it starts. \<open>steady R\<close>: \<open>R\<close> is a preorder that does not look at the
  count of operations. \<open>allows R write\<close>: \<open>R\<close> holds across the write.
\<close>

definition keeps :: "(world \<Rightarrow> world \<Rightarrow> bool) \<Rightarrow> 'a step \<Rightarrow> bool" where
  "keeps R a = (\<forall>w. R w (worldOf (a w)))"

definition steady :: "(world \<Rightarrow> world \<Rightarrow> bool) \<Rightarrow> bool" where
  "steady R = ((\<forall>w. R w w) \<and> (\<forall>w w' w''. R w w' \<longrightarrow> R w' w'' \<longrightarrow> R w w'') \<and>
               (\<forall>w. R w (w\<lparr>ops := Suc (ops w)\<rparr>)))"

definition allows :: "(world \<Rightarrow> world \<Rightarrow> bool) \<Rightarrow> (world \<Rightarrow> world) \<Rightarrow> bool" where
  "allows R write = (\<forall>w. R w (write w))"

subsection \<open>Conditions that a step establishes\<close>

text \<open>
  \<open>establishes P a Q E\<close>: from a store where \<open>P\<close> holds, \<open>a\<close> returns a value and a store
  with \<open>Q\<close>, or throws in a store with \<open>E\<close>.
\<close>

definition establishes ::
  "(world \<Rightarrow> bool) \<Rightarrow> 'a step \<Rightarrow> ('a \<Rightarrow> world \<Rightarrow> bool) \<Rightarrow> (world \<Rightarrow> bool) \<Rightarrow> bool" where
  "establishes P a Q E =
     (\<forall>w. P w \<longrightarrow> (case a w of Inl (thrown, w') \<Rightarrow> E w' | Inr (x, w') \<Rightarrow> Q x w'))"

subsection \<open>Relations between the store before and after a part of the run\<close>

text \<open>
  \<open>grows\<close>: the collections, the calls and the log are extended, and the status and the
  fields of the run document that only the final update writes are as before.
  \<open>sameOffers\<close>: the offers and the counter of offers are as before. \<open>quiet\<close>: no call of
  the discovery stage was made. \<open>harmless R\<close>: \<open>R\<close> holds across a log line and across
  the writes of the two pointers.
\<close>

definition grows :: "world \<Rightarrow> world \<Rightarrow> bool" where
  "grows w w' =
     (prefix (casinos w) (casinos w') \<and> prefix (offers w) (offers w') \<and> prefix (calls w) (calls w') \<and>
      prefix (progressLog (run w)) (progressLog (run w')) \<and>
      status (run w') = status (run w) \<and> completedAt (run w') = completedAt (run w) \<and>
      summary (run w') = summary (run w) \<and> missingCasinos (run w') = missingCasinos (run w) \<and>
      offerComparisons (run w') = offerComparisons (run w))"

definition sameOffers :: "world \<Rightarrow> world \<Rightarrow> bool" where
  "sameOffers w w' = (offers w' = offers w \<and> offersProcessed (run w') = offersProcessed (run w))"

definition quiet :: "world \<Rightarrow> world \<Rightarrow> bool" where
  "quiet w w' = (discoverCalls w' = discoverCalls w)"

definition harmless :: "(world \<Rightarrow> world \<Rightarrow> bool) \<Rightarrow> bool" where
  "harmless R =
     (steady R \<and> (\<forall>e msg. allows R (pushLog e msg)) \<and> (\<forall>s. allows R (setCurrentState s)) \<and>
      (\<forall>c n. allows R (setCurrentCasino c n)))"

subsection \<open>The bookkeeping of new offers\<close>

text \<open>
  \<open>inserted base w\<close>: the offers of the store are those of \<open>base\<close> followed by offers of
  source \<^verbatim>\<open>ai-research\<close>, and the run document counts the latter. \<open>lagging base w\<close>: the
  same, but the document may count fewer. \<open>counted v w\<close>: the counters of the loop agree
  with each other, with the document and with the comparisons.
\<close>

definition aiResearch :: "offer \<Rightarrow> bool" where
  "aiResearch d = (source d = ''ai-research'')"

definition inserted :: "offer list \<Rightarrow> world \<Rightarrow> bool" where
  "inserted base w =
     (\<exists>new. offers w = base @ new \<and> list_all aiResearch new \<and> offersProcessed (run w) = length new)"

definition lagging :: "offer list \<Rightarrow> world \<Rightarrow> bool" where
  "lagging base w =
     (\<exists>new. offers w = base @ new \<and> list_all aiResearch new \<and> offersProcessed (run w) \<le> length new)"

definition counted :: "vars \<Rightarrow> world \<Rightarrow> bool" where
  "counted v w =
     (offersProcessed (run w) = var_totalOffersProcessed v \<and>
      var_totalNewOffers v = var_totalOffersProcessed v \<and>
      var_totalNewOffers v = sum_list (map (\<lambda>c. length (newOffers c)) (var_offerComparisons v)) \<and>
      list_all (\<lambda>c. newOffers c \<noteq> []) (var_offerComparisons v))"

definition exact :: "offer list \<Rightarrow> vars \<Rightarrow> world \<Rightarrow> bool" where
  "exact base v w = (inserted base w \<and> counted v w)"

section \<open>Reasoning about steps\<close>

subsection \<open>What a step returns\<close>

lemma worldOf_simps [simp]:
  "worldOf (Inl (thrown, w)) = w"
  "worldOf (Inr (x, w)) = w"
  by (simp_all add: worldOf_def)

lemma ret_eq [simp]: "ret x w = Inr (x, w)"
  by (simp add: ret_def)

lemma compute_eq [simp]:
  "compute (Inr x) w = Inr (x, w)"
  "compute (Inl thrown) w = Inl (thrown, w)"
  by (simp_all add: compute_def)

lemma compute_Inr [simp]: "compute r w = Inr (x, w') \<longleftrightarrow> r = Inr x \<and> w' = w"
  by (auto simp: compute_def split: sum.splits)

lemma compute_Inl [simp]: "compute r w = Inl (thrown, w') \<longleftrightarrow> r = Inl thrown \<and> w' = w"
  by (auto simp: compute_def split: sum.splits)

lemma bind_Inr:
  "bind a k w = Inr (y, w'') \<longleftrightarrow> (\<exists>x w'. a w = Inr (x, w') \<and> k x w' = Inr (y, w''))"
  by (auto simp: bind_def split: sum.splits)

lemma bind_Inl:
  "bind a k w = Inl (thrown, w'') \<longleftrightarrow>
     a w = Inl (thrown, w'') \<or> (\<exists>x w'. a w = Inr (x, w') \<and> k x w' = Inl (thrown, w''))"
  by (auto simp: bind_def split: sum.splits)

lemma bind_returned: "a w = Inr (x, w') \<Longrightarrow> bind a k w = k x w'"
  by (simp add: bind_def)

lemma bind_thrown: "a w = Inl thrown \<Longrightarrow> bind a k w = Inl thrown"
  by (simp add: bind_def)

lemma update_Inr:
  "update f write w = Inr (u, w') \<longleftrightarrow> f (ops w) = None \<and> w' = write (w\<lparr>ops := Suc (ops w)\<rparr>)"
  by (auto simp: update_def split: option.splits)

lemma update_Inl:
  "update f write w = Inl (thrown, w') \<longleftrightarrow>
     (\<exists>msg. f (ops w) = Some msg \<and> thrown = StoreError msg \<and> w' = w\<lparr>ops := Suc (ops w)\<rparr>)"
  by (auto simp: update_def split: option.splits)

lemma query_Inr:
  "query f read w = Inr (x, w') \<longleftrightarrow> f (ops w) = None \<and> x = read w \<and> w' = w\<lparr>ops := Suc (ops w)\<rparr>"
  by (auto simp: query_def split: option.splits)

lemma query_Inl:
  "query f read w = Inl (thrown, w') \<longleftrightarrow>
     (\<exists>msg. f (ops w) = Some msg \<and> thrown = StoreError msg \<and> w' = w\<lparr>ops := Suc (ops w)\<rparr>)"
  by (auto simp: query_def split: option.splits)

lemma update_reliable [simp]: "update reliable write w = Inr ((), write (w\<lparr>ops := Suc (ops w)\<rparr>))"
  by (simp add: update_def reliable_def)

lemma query_reliable [simp]: "query reliable read w = Inr (read w, w\<lparr>ops := Suc (ops w)\<rparr>)"
  by (simp add: query_def reliable_def)

subsection \<open>Relations that every outcome of a step keeps\<close>

lemma keeps_Inr: "keeps R a \<Longrightarrow> a w = Inr (x, w') \<Longrightarrow> R w w'"
  by (auto simp: keeps_def dest: spec [where x = w])

lemma keeps_Inl: "keeps R a \<Longrightarrow> a w = Inl (thrown, w') \<Longrightarrow> R w w'"
  by (auto simp: keeps_def dest: spec [where x = w])

lemma steady_refl: "steady R \<Longrightarrow> R w w"
  by (simp add: steady_def)

lemma steady_trans: "steady R \<Longrightarrow> R w w' \<Longrightarrow> R w' w'' \<Longrightarrow> R w w''"
  unfolding steady_def by blast

lemma keeps_ret: "steady R \<Longrightarrow> keeps R (ret x)"
  by (simp add: keeps_def steady_def)

lemma keeps_compute: "steady R \<Longrightarrow> keeps R (compute r)"
  by (cases r) (simp_all add: keeps_def steady_def compute_def)

lemma keeps_query: "steady R \<Longrightarrow> keeps R (query f read)"
  by (simp add: keeps_def steady_def query_def split: option.splits)

lemma keeps_update:
  assumes "steady R" and "allows R write"
  shows "keeps R (update f write)"
proof -
  have "R w (write (w\<lparr>ops := Suc (ops w)\<rparr>))" for w
  proof -
    have "R w (w\<lparr>ops := Suc (ops w)\<rparr>)"
      using assms(1) by (simp add: steady_def)
    moreover have "R (w\<lparr>ops := Suc (ops w)\<rparr>) (write (w\<lparr>ops := Suc (ops w)\<rparr>))"
      using assms(2) by (simp add: allows_def)
    ultimately show ?thesis
      using assms(1) by (rule steady_trans [rotated])
  qed
  then show ?thesis
    using assms(1) by (simp add: keeps_def steady_def update_def split: option.splits)
qed

lemma keeps_bind:
  assumes "steady R" and "keeps R a" and "\<And>x. keeps R (k x)"
  shows "keeps R (bind a k)"
  unfolding keeps_def
proof
  fix w
  show "R w (worldOf (bind a k w))"
  proof (cases "a w")
    case (Inl b)
    obtain thrown w' where b: "b = (thrown, w')" by (cases b)
    with Inl keeps_Inl [OF assms(2), of w thrown w'] show ?thesis
      by (simp add: bind_def)
  next
    case (Inr b)
    obtain x w' where b: "b = (x, w')" by (cases b)
    have "R w w'"
      using keeps_Inr [OF assms(2)] Inr b by simp
    moreover have "R w' (worldOf (k x w'))"
      using assms(3) by (simp add: keeps_def)
    ultimately have "R w (worldOf (k x w'))"
      by (rule steady_trans [OF assms(1)])
    with Inr b show ?thesis
      by (simp add: bind_def)
  qed
qed

lemma keeps_if: "keeps R a \<Longrightarrow> keeps R b \<Longrightarrow> keeps R (if c then a else b)"
  by simp

lemma keeps_call:
  "steady R \<Longrightarrow> allows R (noteCall (Discover stateName)) \<Longrightarrow> keeps R (discoverCasinosByState e stateName)"
  "steady R \<Longrightarrow> allows R (noteCall (Research cName stateName)) \<Longrightarrow>
     keeps R (researchCasinoOffers e cName stateName)"
  by (simp_all add: keeps_def allows_def discoverCasinosByState_def researchCasinoOffers_def)

lemma keeps_logProgress: "steady R \<Longrightarrow> allows R (pushLog e msg) \<Longrightarrow> keeps R (logProgress f e msg)"
  by (simp add: logProgress_def keeps_update)

subsection \<open>Conditions that a step establishes\<close>

lemma establishes_Inr: "establishes P a Q E \<Longrightarrow> P w \<Longrightarrow> a w = Inr (x, w') \<Longrightarrow> Q x w'"
  by (auto simp: establishes_def dest: spec [where x = w])

lemma establishes_Inl: "establishes P a Q E \<Longrightarrow> P w \<Longrightarrow> a w = Inl (thrown, w') \<Longrightarrow> E w'"
  by (auto simp: establishes_def dest: spec [where x = w])

lemma establishesI:
  assumes "\<And>w x w'. P w \<Longrightarrow> a w = Inr (x, w') \<Longrightarrow> Q x w'"
    and "\<And>w thrown w'. P w \<Longrightarrow> a w = Inl (thrown, w') \<Longrightarrow> E w'"
  shows "establishes P a Q E"
  unfolding establishes_def
proof (intro allI impI)
  fix w
  assume "P w"
  with assms show "case a w of Inl (thrown, w') \<Rightarrow> E w' | Inr (x, w') \<Rightarrow> Q x w'"
    by (cases "a w") auto
qed

lemma establishes_ret: "(\<And>w. P w \<Longrightarrow> Q x w) \<Longrightarrow> establishes P (ret x) Q E"
  by (simp add: establishes_def)

lemma establishes_bind:
  assumes "establishes P a M E" and "\<And>x. establishes (M x) (k x) Q E"
  shows "establishes P (bind a k) Q E"
proof (rule establishesI)
  fix w y w''
  assume "P w" and "bind a k w = Inr (y, w'')"
  then obtain x w' where "a w = Inr (x, w')" "k x w' = Inr (y, w'')"
    by (auto simp: bind_Inr)
  with \<open>P w\<close> show "Q y w''"
    using establishes_Inr [OF assms(1)] establishes_Inr [OF assms(2)] by blast
next
  fix w thrown w''
  assume "P w" and "bind a k w = Inl (thrown, w'')"
  then consider "a w = Inl (thrown, w'')"
    | x w' where "a w = Inr (x, w')" "k x w' = Inl (thrown, w'')"
    by (auto simp: bind_Inl)
  then show "E w''"
  proof cases
    case 1
    with \<open>P w\<close> show ?thesis
      using establishes_Inl [OF assms(1)] by blast
  next
    case 2
    with \<open>P w\<close> show ?thesis
      using establishes_Inr [OF assms(1)] establishes_Inl [OF assms(2)] by blast
  qed
qed

text \<open>A step that keeps a relation under which \<open>P\<close> is stable leaves \<open>P\<close> as it is.\<close>

lemma establishes_keeps:
  assumes "keeps R a" and "\<And>w w'. P w \<Longrightarrow> R w w' \<Longrightarrow> P w'"
  shows "establishes P a (\<lambda>x. P) P"
proof (rule establishesI)
  fix w x w'
  assume "P w" and "a w = Inr (x, w')"
  with keeps_Inr [OF assms(1)] assms(2) show "P w'" by blast
next
  fix w thrown w'
  assume "P w" and "a w = Inl (thrown, w')"
  with keeps_Inl [OF assms(1)] assms(2) show "P w'" by blast
qed

lemma establishes_weaken:
  assumes "establishes P a Q E"
    and "\<And>w. P' w \<Longrightarrow> P w" and "\<And>x w. Q x w \<Longrightarrow> Q' x w" and "\<And>w. E w \<Longrightarrow> E' w"
  shows "establishes P' a Q' E'"
proof (rule establishesI)
  fix w x w'
  assume "P' w" and "a w = Inr (x, w')"
  with establishes_Inr [OF assms(1)] assms(2,3) show "Q' x w'" by blast
next
  fix w thrown w'
  assume "P' w" and "a w = Inl (thrown, w')"
  with establishes_Inl [OF assms(1)] assms(2,4) show "E' w'" by blast
qed

lemma establishes_after:
  assumes "keeps R a" and "\<And>w w'. P w \<Longrightarrow> R w w' \<Longrightarrow> P w'" and "\<And>w. P w \<Longrightarrow> E w"
    and "\<And>x. establishes P (k x) Q E"
  shows "establishes P (bind a k) Q E"
proof (rule establishes_bind [where M = "\<lambda>x. P"])
  show "establishes P a (\<lambda>x. P) E"
    by (rule establishes_weaken [OF establishes_keeps [OF assms(1,2)]]) (auto intro: assms(3))
qed (rule assms(4))

section \<open>What each part of the run changes\<close>

subsection \<open>Relations between the store before and after\<close>

lemma harmless_steady: "harmless R \<Longrightarrow> steady R"
  by (simp add: harmless_def)

lemma harmless_allows:
  assumes "harmless R"
  shows "allows R (pushLog e msg)" and "allows R (setCurrentState s)"
    and "allows R (setCurrentCasino c n)"
  using assms by (simp_all add: harmless_def)

lemma harmless_grows: "harmless grows"
  by (auto simp: harmless_def steady_def allows_def grows_def pushLog_def setCurrentState_def
        setCurrentCasino_def)

lemma harmless_sameOffers: "harmless sameOffers"
  by (auto simp: harmless_def steady_def allows_def sameOffers_def pushLog_def setCurrentState_def
        setCurrentCasino_def)

lemma harmless_quiet: "harmless quiet"
  by (auto simp: harmless_def steady_def allows_def quiet_def discoverCalls_def pushLog_def
        setCurrentState_def setCurrentCasino_def)

lemma allows_grows:
  "allows grows (insertCasino d)" "allows grows (insertOffer d')" "allows grows (setOffersProcessed n)"
  "allows grows (noteCall c)"
  by (auto simp: allows_def grows_def insertCasino_def insertOffer_def setOffersProcessed_def
        noteCall_def)

lemma allows_sameOffers:
  "allows sameOffers (insertCasino d)" "allows sameOffers (noteCall c)"
  "allows sameOffers (markCompleted e v)"
  by (auto simp: allows_def sameOffers_def insertCasino_def noteCall_def markCompleted_def)

lemma allows_quiet:
  "allows quiet (insertCasino d)" "allows quiet (insertOffer d')" "allows quiet (setOffersProcessed n)"
  "allows quiet (noteCall (Research cName stateName))"
  by (auto simp: allows_def quiet_def discoverCalls_def insertCasino_def insertOffer_def
        setOffersProcessed_def noteCall_def isDiscover_def)

subsection \<open>The parts of a jurisdiction\<close>

lemma keeps_storeDiscovered:
  assumes "harmless R" and "\<And>d. allows R (insertCasino d)"
  shows "keeps R (storeDiscovered f e stateName abbrev ds missing)"
proof (induction ds arbitrary: missing)
  case Nil
  show ?case
    by (simp add: keeps_def steady_refl [OF harmless_steady [OF assms(1)]])
next
  case (Cons d ds)
  note st = harmless_steady [OF assms(1)]
  have found: "keeps R (case existingCasino of
            Some found \<Rightarrow> storeDiscovered f e stateName abbrev ds missing
          | None \<Rightarrow>
              bind (compute (casinoDocument e stateName abbrev d nm)) (\<lambda>document.
              bind (update f (insertCasino document)) (\<lambda>u.
              bind (logProgress f e (''  '' @ glyphNew @ '' Discovered new casino: '' @ nm)) (\<lambda>u.
              storeDiscovered f e stateName abbrev ds (missing @ [nm])))))" for existingCasino nm
  proof (cases existingCasino)
    case None
    show ?thesis
      unfolding None option.case
      by (intro keeps_bind keeps_compute keeps_update keeps_logProgress st assms(2)
            harmless_allows [OF assms(1)] Cons.IH)
  next
    case (Some found)
    show ?thesis
      unfolding Some option.case by (rule Cons.IH)
  qed
  show ?case
    unfolding storeDiscovered.simps
    by (intro keeps_bind keeps_compute keeps_query st found)
qed

lemma keeps_discoverPhase:
  assumes "harmless R" and "allows R (noteCall (Discover stateName))"
  shows "keeps R (discoverPhase f e abbrev stateName)"
  unfolding discoverPhase_def
  by (intro keeps_bind keeps_update keeps_logProgress keeps_call keeps_ret
        harmless_steady [OF assms(1)] harmless_allows [OF assms(1)] assms(2))

lemma keeps_venuePhase:
  assumes "harmless R" and "\<And>d. allows R (insertCasino d)"
  shows "keeps R (venuePhase f e abbrev stateName discoveredCasinos)"
  unfolding venuePhase_def
  by (intro keeps_bind keeps_query keeps_compute keeps_storeDiscovered
        harmless_steady [OF assms(1)] assms)

lemma keeps_createOffers:
  assumes "steady R" and "\<And>d. allows R (insertOffer d)"
  shows "keeps R (createOffers f e c stateName abbrev new)"
proof (induction new)
  case Nil
  show ?case
    by (simp add: keeps_def steady_refl [OF assms(1)])
next
  case (Cons d new)
  show ?case
    unfolding createOffers.simps
    by (intro keeps_bind keeps_compute keeps_update assms Cons.IH)
qed

lemma keeps_recordNewOffers:
  assumes "harmless R" and "\<And>d. allows R (insertOffer d)"
  shows "keeps R (recordNewOffers f e stateName abbrev c current discoveredOs new v)"
  unfolding recordNewOffers_def Let_def
  by (intro keeps_bind keeps_logProgress keeps_createOffers keeps_compute keeps_ret
        harmless_steady [OF assms(1)] harmless_allows [OF assms(1)] assms(2))

lemma keeps_surveyOffers:
  assumes "harmless R" and "allows R (noteCall (Research (name c) stateName))"
  shows "keeps R (surveyOffers f e stateName abbrev c n)"
  unfolding surveyOffers_def
  by (intro keeps_bind keeps_update keeps_logProgress keeps_call keeps_query keeps_compute keeps_ret
        harmless_steady [OF assms(1)] harmless_allows [OF assms(1)] assms(2))

lemma keeps_researchCasino:
  assumes "harmless R" and "allows R (noteCall (Research (name c) stateName))"
    and "\<And>d. allows R (insertOffer d)" and "\<And>n. allows R (setOffersProcessed n)"
  shows "keeps R (researchCasino f e stateName abbrev c v)"
proof -
  note st = harmless_steady [OF assms(1)]
  have rest: "keeps R (case found of (current, discoveredOs, new) \<Rightarrow>
         bind (if new \<noteq> []
               then recordNewOffers f e stateName abbrev c current discoveredOs new v1
               else ret v1) (\<lambda>v2.
         bind (update f (setOffersProcessed (var_totalOffersProcessed v2))) (\<lambda>u.
         ret v2)))" for found v1
    by (cases found)
       (auto intro!: keeps_bind keeps_update keeps_ret keeps_recordNewOffers st assms)
  show ?thesis
    unfolding researchCasino_def Let_def
    by (intro keeps_bind keeps_surveyOffers st assms(1,2) rest)
qed

lemma keeps_researchAll:
  assumes "harmless R" and "\<And>cName. allows R (noteCall (Research cName stateName))"
    and "\<And>d. allows R (insertOffer d)" and "\<And>n. allows R (setOffersProcessed n)"
  shows "keeps R (researchAll f e stateName abbrev cs v)"
proof (induction cs arbitrary: v)
  case Nil
  show ?case
    by (simp add: keeps_def steady_refl [OF harmless_steady [OF assms(1)]])
next
  case (Cons c cs)
  show ?case
    unfolding researchAll.simps
    by (intro keeps_bind keeps_researchCasino harmless_steady [OF assms(1)] assms Cons.IH)
qed

lemma keeps_researchPhase:
  assumes "harmless R" and "\<And>cName. allows R (noteCall (Research cName stateName))"
    and "\<And>d. allows R (insertOffer d)" and "\<And>n. allows R (setOffersProcessed n)"
  shows "keeps R (researchPhase f e abbrev stateName missing v)"
  unfolding researchPhase_def Let_def
  by (intro keeps_bind keeps_if keeps_logProgress keeps_query keeps_researchAll keeps_ret
        harmless_steady [OF assms(1)] harmless_allows [OF assms(1)] assms)

lemma keeps_processState:
  assumes "harmless R" and "\<And>c. allows R (noteCall c)"
    and "\<And>d. allows R (insertCasino d)"
    and "\<And>d. allows R (insertOffer d)" and "\<And>n. allows R (setOffersProcessed n)"
  shows "keeps R (processState f e entry v)"
  unfolding processState_def
  by (intro keeps_bind keeps_discoverPhase keeps_venuePhase keeps_researchPhase
        harmless_steady [OF assms(1)] assms)

lemma keeps_statesLoop:
  assumes "harmless R" and "\<And>c. allows R (noteCall c)"
    and "\<And>d. allows R (insertCasino d)"
    and "\<And>d. allows R (insertOffer d)" and "\<And>n. allows R (setOffersProcessed n)"
  shows "keeps R (statesLoop f e sts v)"
proof (induction sts arbitrary: v)
  case Nil
  show ?case
    by (simp add: keeps_def steady_refl [OF harmless_steady [OF assms(1)]])
next
  case (Cons entry sts)
  show ?case
    unfolding statesLoop.simps
    by (intro keeps_bind keeps_processState harmless_steady [OF assms(1)] assms Cons.IH)
qed

lemma keeps_beforeLoop:
  assumes "harmless R"
  shows "keeps R (beforeLoop f e)"
  unfolding beforeLoop_def
  by (intro keeps_bind keeps_query keeps_logProgress harmless_steady [OF assms]
        harmless_allows [OF assms])

subsection \<open>The bookkeeping of one venue\<close>

lemma exact_sameOffers: "exact base v w \<Longrightarrow> sameOffers w w' \<Longrightarrow> exact base v w'"
  by (auto simp: exact_def inserted_def counted_def sameOffers_def)

lemma lagging_sameOffers: "lagging base w \<Longrightarrow> sameOffers w w' \<Longrightarrow> lagging base w'"
  by (auto simp: lagging_def sameOffers_def)

lemma exact_lagging: "exact base v w \<Longrightarrow> lagging base w"
  by (auto simp: exact_def inserted_def lagging_def)

lemma exact_vars:
  "exact base v w \<Longrightarrow> var_totalOffersProcessed v' = var_totalOffersProcessed v \<Longrightarrow>
   var_totalNewOffers v' = var_totalNewOffers v \<Longrightarrow>
   var_offerComparisons v' = var_offerComparisons v \<Longrightarrow> exact base v' w"
  by (simp add: exact_def counted_def)

lemma offerDocument_source: "offerDocument e c stateName abbrev dOffer = Inr document \<Longrightarrow> aiResearch document"
  by (auto simp: offerDocument_def aiResearch_def Let_def split: sum.splits if_splits)

lemma createOffers_Inr:
  "createOffers f e c stateName abbrev new w = Inr (u, w') \<Longrightarrow>
     \<exists>docs. offers w' = offers w @ docs \<and> length docs = length new \<and> list_all aiResearch docs \<and>
            offersProcessed (run w') = offersProcessed (run w)"
proof (induction new arbitrary: w)
  case Nil
  then show ?case by simp
next
  case (Cons d new)
  from Cons.prems obtain document w1 where
    doc: "offerDocument e c stateName abbrev d = Inr document"
    and ins: "update f (insertOffer document) w = Inr ((), w1)"
    and rest: "createOffers f e c stateName abbrev new w1 = Inr (u, w')"
    by (auto simp: bind_Inr)
  from ins have w1: "offers w1 = offers w @ [document]" "offersProcessed (run w1) = offersProcessed (run w)"
    by (simp_all add: update_Inr insertOffer_def)
  from Cons.IH [OF rest] obtain docs where
    docs: "offers w' = offers w1 @ docs" "length docs = length new" "list_all aiResearch docs"
      "offersProcessed (run w') = offersProcessed (run w1)"
    by blast
  have "offers w' = offers w @ (document # docs) \<and> length (document # docs) = length (d # new) \<and>
        list_all aiResearch (document # docs) \<and> offersProcessed (run w') = offersProcessed (run w)"
    using w1 docs offerDocument_source [OF doc] by simp
  then show ?case by blast
qed

lemma createOffers_Inl:
  "createOffers f e c stateName abbrev new w = Inl (thrown, w') \<Longrightarrow>
     \<exists>docs. offers w' = offers w @ docs \<and> length docs < length new \<and> list_all aiResearch docs \<and>
            offersProcessed (run w') = offersProcessed (run w)"
proof (induction new arbitrary: w)
  case Nil
  then show ?case by simp
next
  case (Cons d new)
  from Cons.prems consider
    (document) "offerDocument e c stateName abbrev d = Inl thrown" "w' = w"
    | (insert) document where "offerDocument e c stateName abbrev d = Inr document"
        "update f (insertOffer document) w = Inl (thrown, w')"
    | (rest) document w1 where "offerDocument e c stateName abbrev d = Inr document"
        "update f (insertOffer document) w = Inr ((), w1)"
        "createOffers f e c stateName abbrev new w1 = Inl (thrown, w')"
    by (auto simp: bind_Inl bind_Inr)
  then show ?case
  proof cases
    case document
    then have "offers w' = offers w @ [] \<and> length ([] :: offer list) < length (d # new) \<and>
               list_all aiResearch [] \<and> offersProcessed (run w') = offersProcessed (run w)"
      by simp
    then show ?thesis by blast
  next
    case insert
    then have "offers w' = offers w @ [] \<and> length ([] :: offer list) < length (d # new) \<and>
               list_all aiResearch [] \<and> offersProcessed (run w') = offersProcessed (run w)"
      by (auto simp: update_Inl)
    then show ?thesis by blast
  next
    case rest
    from rest(2) have w1: "offers w1 = offers w @ [document]"
      "offersProcessed (run w1) = offersProcessed (run w)"
      by (simp_all add: update_Inr insertOffer_def)
    from Cons.IH [OF rest(3)] obtain docs where
      docs: "offers w' = offers w1 @ docs" "length docs < length new" "list_all aiResearch docs"
        "offersProcessed (run w') = offersProcessed (run w1)"
      by blast
    have "offers w' = offers w @ (document # docs) \<and> length (document # docs) < length (d # new) \<and>
          list_all aiResearch (document # docs) \<and> offersProcessed (run w') = offersProcessed (run w)"
      using w1 docs offerDocument_source [OF rest(1)] by simp
    then show ?thesis by blast
  qed
qed

lemma mapViews_length: "mapViews view ds = Inr vs \<Longrightarrow> length vs = length ds"
  by (induction ds arbitrary: vs) (auto split: sum.splits)

lemma comparisonOf_newOffers:
  "comparisonOf e c stateName current discoveredOs new = Inr entry \<Longrightarrow>
     length (newOffers entry) = length new"
  by (auto simp: comparisonOf_def split: sum.splits dest: mapViews_length)

lemma keeps_sameOffers_logProgress: "keeps sameOffers (logProgress f e msg)"
  by (intro keeps_logProgress harmless_steady harmless_allows harmless_sameOffers)

lemma recordNewOffers_Inr:
  assumes "recordNewOffers f e stateName abbrev c current discoveredOs new v w = Inr (v', w')"
  shows "\<exists>docs. offers w' = offers w @ docs \<and> length docs = length new \<and> list_all aiResearch docs \<and>
            offersProcessed (run w') = offersProcessed (run w)"
    and "\<exists>entry. length (newOffers entry) = length new \<and>
           v' = v\<lparr>var_totalNewOffers := var_totalNewOffers v + length new,
                  var_totalOffersProcessed := var_totalOffersProcessed v + length new,
                  var_offerComparisons := var_offerComparisons v @ [entry]\<rparr>"
proof -
  from assms obtain w1 w2 entry where
    lg: "logProgress f e
           (''    '' @ glyphOffers @ '' Found '' @ showNat (length new) @ '' new offers for '' @ name c) w =
         Inr ((), w1)"
    and cr: "createOffers f e c stateName abbrev new w1 = Inr ((), w2)"
    and en: "comparisonOf e c stateName current discoveredOs new = Inr entry" "w' = w2"
    and v': "v' = v\<lparr>var_totalNewOffers := var_totalNewOffers v + length new,
                  var_totalOffersProcessed := var_totalOffersProcessed v + length new,
                  var_offerComparisons := var_offerComparisons v @ [entry]\<rparr>"
    by (auto simp: recordNewOffers_def Let_def bind_Inr)
  from keeps_Inr [OF keeps_sameOffers_logProgress lg]
  have "offers w1 = offers w" "offersProcessed (run w1) = offersProcessed (run w)"
    by (simp_all add: sameOffers_def)
  with createOffers_Inr [OF cr] en(2)
  show "\<exists>docs. offers w' = offers w @ docs \<and> length docs = length new \<and> list_all aiResearch docs \<and>
            offersProcessed (run w') = offersProcessed (run w)"
    by simp
  from comparisonOf_newOffers [OF en(1)] v'
  show "\<exists>entry. length (newOffers entry) = length new \<and>
           v' = v\<lparr>var_totalNewOffers := var_totalNewOffers v + length new,
                  var_totalOffersProcessed := var_totalOffersProcessed v + length new,
                  var_offerComparisons := var_offerComparisons v @ [entry]\<rparr>"
    by blast
qed

lemma recordNewOffers_Inl:
  assumes "recordNewOffers f e stateName abbrev c current discoveredOs new v w = Inl (thrown, w')"
  shows "\<exists>docs. offers w' = offers w @ docs \<and> list_all aiResearch docs \<and>
            offersProcessed (run w') = offersProcessed (run w)"
proof -
  let ?msg = "''    '' @ glyphOffers @ '' Found '' @ showNat (length new) @ '' new offers for '' @ name c"
  from assms consider
    (log) "logProgress f e ?msg w = Inl (thrown, w')"
    | (create) w1 where "logProgress f e ?msg w = Inr ((), w1)"
        "createOffers f e c stateName abbrev new w1 = Inl (thrown, w')"
    | (entry) w1 where "logProgress f e ?msg w = Inr ((), w1)"
        "createOffers f e c stateName abbrev new w1 = Inr ((), w')"
    by (auto simp: recordNewOffers_def Let_def bind_Inl bind_Inr)
  then show ?thesis
  proof cases
    case log
    from keeps_Inl [OF keeps_sameOffers_logProgress log]
    have "offers w' = offers w @ [] \<and> list_all aiResearch [] \<and>
          offersProcessed (run w') = offersProcessed (run w)"
      by (simp add: sameOffers_def)
    then show ?thesis by blast
  next
    case create
    from keeps_Inr [OF keeps_sameOffers_logProgress create(1)] createOffers_Inl [OF create(2)]
    show ?thesis
      by (auto simp: sameOffers_def)
  next
    case entry
    from keeps_Inr [OF keeps_sameOffers_logProgress entry(1)] createOffers_Inr [OF entry(2)]
    show ?thesis
      by (auto simp: sameOffers_def)
  qed
qed

lemma keeps_sameOffers_surveyOffers: "keeps sameOffers (surveyOffers f e stateName abbrev c n)"
  by (intro keeps_surveyOffers harmless_sameOffers allows_sameOffers)

text \<open>
  One venue: when it returns, the run document counts the offers inserted; when it
  throws, the offers it has inserted may not be counted yet.
\<close>

lemma researchCasino_tally:
  "establishes (exact base v) (researchCasino f e stateName abbrev c v) (exact base) (lagging base)"
proof (rule establishesI)
  fix w v' w'
  assume ex: "exact base v w"
    and ret: "researchCasino f e stateName abbrev c v w = Inr (v', w')"
  let ?v1 = "v\<lparr>var_totalCasinosProcessed := Suc (var_totalCasinosProcessed v)\<rparr>"
  from ret obtain current discoveredOs new w1 w2 where
    sv: "surveyOffers f e stateName abbrev c (Suc (var_totalCasinosProcessed v)) w =
           Inr ((current, discoveredOs, new), w1)"
    and rc: "(if new \<noteq> []
              then recordNewOffers f e stateName abbrev c current discoveredOs new ?v1
              else ret ?v1) w1 = Inr (v', w2)"
    and up: "update f (setOffersProcessed (var_totalOffersProcessed v')) w2 = Inr ((), w')"
    by (auto simp: researchCasino_def Let_def bind_Inr)
  have ex1: "exact base ?v1 w1"
    using exact_sameOffers [OF ex keeps_Inr [OF keeps_sameOffers_surveyOffers sv]]
    by (rule exact_vars) simp_all
  from up have w': "offers w' = offers w2" "offersProcessed (run w') = var_totalOffersProcessed v'"
    by (simp_all add: update_Inr setOffersProcessed_def)
  show "exact base v' w'"
  proof (cases "new = []")
    case True
    with rc have "v' = ?v1" "w2 = w1" by simp_all
    with ex1 w' show ?thesis
      by (auto simp: exact_def inserted_def counted_def)
  next
    case False
    with rc have rec: "recordNewOffers f e stateName abbrev c current discoveredOs new ?v1 w1 = Inr (v', w2)"
      by simp
    from recordNewOffers_Inr [OF rec] obtain docs entry where
      docs: "offers w2 = offers w1 @ docs" "length docs = length new" "list_all aiResearch docs"
      and entry: "length (newOffers entry) = length new"
        "v' = ?v1\<lparr>var_totalNewOffers := var_totalNewOffers ?v1 + length new,
                  var_totalOffersProcessed := var_totalOffersProcessed ?v1 + length new,
                  var_offerComparisons := var_offerComparisons ?v1 @ [entry]\<rparr>"
      by blast
    from ex1 obtain old where
      old: "offers w1 = base @ old" "list_all aiResearch old" "offersProcessed (run w1) = length old"
      by (auto simp: exact_def inserted_def)
    have "inserted base w'"
      unfolding inserted_def
    proof (intro exI conjI)
      show "offers w' = base @ (old @ docs)"
        using w'(1) docs(1) old(1) by simp
      show "list_all aiResearch (old @ docs)"
        using old(2) docs(3) by simp
      show "offersProcessed (run w') = length (old @ docs)"
        using w'(2) entry(2) docs(2) old(3) ex1 by (simp add: exact_def counted_def)
    qed
    moreover have "newOffers entry \<noteq> []"
      using entry(1) False by auto
    then have "counted v' w'"
      using ex1 w'(2) entry by (simp add: exact_def counted_def)
    ultimately show ?thesis
      by (simp add: exact_def)
  qed
next
  fix w thrown w'
  assume ex: "exact base v w"
    and thr: "researchCasino f e stateName abbrev c v w = Inl (thrown, w')"
  let ?v1 = "v\<lparr>var_totalCasinosProcessed := Suc (var_totalCasinosProcessed v)\<rparr>"
  from thr consider
    (survey) "surveyOffers f e stateName abbrev c (Suc (var_totalCasinosProcessed v)) w = Inl (thrown, w')"
    | (recording) current discoveredOs new w1 where
        "surveyOffers f e stateName abbrev c (Suc (var_totalCasinosProcessed v)) w =
           Inr ((current, discoveredOs, new), w1)"
        "(if new \<noteq> []
          then recordNewOffers f e stateName abbrev c current discoveredOs new ?v1
          else ret ?v1) w1 = Inl (thrown, w')"
    | (writing) current discoveredOs new w1 v2 w2 where
        "surveyOffers f e stateName abbrev c (Suc (var_totalCasinosProcessed v)) w =
           Inr ((current, discoveredOs, new), w1)"
        "(if new \<noteq> []
          then recordNewOffers f e stateName abbrev c current discoveredOs new ?v1
          else ret ?v1) w1 = Inr (v2, w2)"
        "update f (setOffersProcessed (var_totalOffersProcessed v2)) w2 = Inl (thrown, w')"
    by (auto simp: researchCasino_def Let_def bind_Inl bind_Inr)
  then show "lagging base w'"
  proof cases
    case survey
    from exact_sameOffers [OF ex keeps_Inl [OF keeps_sameOffers_surveyOffers survey]]
    show ?thesis by (rule exact_lagging)
  next
    case recording
    have ex1: "exact base v w1"
      by (rule exact_sameOffers [OF ex keeps_Inr [OF keeps_sameOffers_surveyOffers recording(1)]])
    from recording(2) have rec:
      "recordNewOffers f e stateName abbrev c current discoveredOs new ?v1 w1 = Inl (thrown, w')"
      by (cases "new = []") simp_all
    from recordNewOffers_Inl [OF rec] obtain docs where
      docs: "offers w' = offers w1 @ docs" "list_all aiResearch docs"
        "offersProcessed (run w') = offersProcessed (run w1)"
      by blast
    from ex1 obtain old where
      old: "offers w1 = base @ old" "list_all aiResearch old" "offersProcessed (run w1) = length old"
      by (auto simp: exact_def inserted_def)
    have "offers w' = base @ (old @ docs) \<and> list_all aiResearch (old @ docs) \<and>
          offersProcessed (run w') \<le> length (old @ docs)"
      using docs old by simp
    then show ?thesis
      unfolding lagging_def by blast
  next
    case writing
    have ex1: "exact base v w1"
      by (rule exact_sameOffers [OF ex keeps_Inr [OF keeps_sameOffers_surveyOffers writing(1)]])
    from writing(3) have w': "offers w' = offers w2" "offersProcessed (run w') = offersProcessed (run w2)"
      by (auto simp: update_Inl)
    have "\<exists>docs. offers w2 = offers w1 @ docs \<and> list_all aiResearch docs \<and>
            offersProcessed (run w2) = offersProcessed (run w1)"
    proof (cases "new = []")
      case True
      with writing(2) have "offers w2 = offers w1 @ [] \<and> list_all aiResearch [] \<and>
            offersProcessed (run w2) = offersProcessed (run w1)"
        by simp
      then show ?thesis by blast
    next
      case False
      with writing(2) recordNewOffers_Inr(1) [of f e stateName abbrev c current discoveredOs new ?v1 w1 v2 w2]
      show ?thesis by auto
    qed
    then obtain docs where
      docs: "offers w2 = offers w1 @ docs" "list_all aiResearch docs"
        "offersProcessed (run w2) = offersProcessed (run w1)"
      by blast
    from ex1 obtain old where
      old: "offers w1 = base @ old" "list_all aiResearch old" "offersProcessed (run w1) = length old"
      by (auto simp: exact_def inserted_def)
    have "offers w' = base @ (old @ docs) \<and> list_all aiResearch (old @ docs) \<and>
          offersProcessed (run w') \<le> length (old @ docs)"
      using w' docs old by simp
    then show ?thesis
      unfolding lagging_def by blast
  qed
qed

subsection \<open>The bookkeeping of each loop\<close>

lemma steady_sameOffers: "steady sameOffers"
  by (rule harmless_steady [OF harmless_sameOffers])

lemma researchAll_tally:
  "establishes (exact base v) (researchAll f e stateName abbrev cs v) (exact base) (lagging base)"
proof (induction cs arbitrary: v)
  case Nil
  show ?case by (simp add: establishes_def)
next
  case (Cons c cs)
  show ?case
    unfolding researchAll.simps
    by (rule establishes_bind [OF researchCasino_tally]) (rule Cons.IH)
qed

lemma researchPhase_tally:
  "establishes (exact base v) (researchPhase f e abbrev stateName missing v) (exact base) (lagging base)"
proof -
  let ?v1 = "if missing \<noteq> []
             then v\<lparr>var_missingCasinos := var_missingCasinos v @
                       [\<lparr>m_state = stateName, m_casinos = missing\<rparr>]\<rparr>
             else v"
  have finish: "establishes (exact base v2) (bind (logProgress f e msg) (\<lambda>u. ret v2))
                  (exact base) (lagging base)" for v2 msg
    apply (rule establishes_after [where R = sameOffers])
       apply (rule keeps_sameOffers_logProgress)
      apply (erule (1) exact_sameOffers)
     apply (erule exact_lagging)
    apply (rule establishes_ret)
    apply assumption
    done
  have "establishes (exact base ?v1) (researchPhase f e abbrev stateName missing v)
          (exact base) (lagging base)"
    unfolding researchPhase_def Let_def
    apply (rule establishes_after [where R = sameOffers])
       apply (simp add: keeps_sameOffers_logProgress)
      apply (erule (1) exact_sameOffers)
     apply (erule exact_lagging)
    apply (rule establishes_after [where R = sameOffers])
       apply (rule keeps_query [OF steady_sameOffers])
      apply (erule (1) exact_sameOffers)
     apply (erule exact_lagging)
    apply (rule establishes_after [where R = sameOffers])
       apply (rule keeps_sameOffers_logProgress)
      apply (erule (1) exact_sameOffers)
     apply (erule exact_lagging)
    apply (rule establishes_bind [OF researchAll_tally])
    apply (rule finish)
    done
  then show ?thesis
    by (rule establishes_weaken) (auto elim: exact_vars)
qed

lemma processState_tally:
  "establishes (exact base v) (processState f e entry v) (exact base) (lagging base)"
  unfolding processState_def
  apply (rule establishes_after [where R = sameOffers])
     apply (rule keeps_discoverPhase [OF harmless_sameOffers allows_sameOffers(2)])
    apply (erule (1) exact_sameOffers)
   apply (erule exact_lagging)
  apply (rule establishes_after [where R = sameOffers])
     apply (rule keeps_venuePhase [OF harmless_sameOffers allows_sameOffers(1)])
    apply (erule (1) exact_sameOffers)
   apply (erule exact_lagging)
  apply (rule researchPhase_tally)
  done

lemma statesLoop_tally:
  "establishes (exact base v) (statesLoop f e sts v) (exact base) (lagging base)"
proof (induction sts arbitrary: v)
  case Nil
  show ?case by (simp add: establishes_def)
next
  case (Cons entry sts)
  show ?case
    unfolding statesLoop.simps
    by (rule establishes_bind [OF processState_tally]) (rule Cons.IH)
qed

subsection \<open>The calls of the discovery stage\<close>

lemma steady_quiet: "steady quiet"
  by (rule harmless_steady [OF harmless_quiet])

lemma keeps_quiet_logProgress: "keeps quiet (logProgress f e msg)"
  by (intro keeps_logProgress harmless_steady harmless_allows harmless_quiet)

lemma quiet_calls: "discoverCalls w = cs \<Longrightarrow> quiet w w' \<Longrightarrow> discoverCalls w' = cs"
  by (simp add: quiet_def)

lemma discoverCasinosByState_calls:
  "establishes (\<lambda>w. discoverCalls w = cs) (discoverCasinosByState e stateName)
     (\<lambda>ds w. discoverCalls w = cs @ [Discover stateName]) E"
  by (rule establishesI)
     (auto simp: discoverCasinosByState_def noteCall_def discoverCalls_def isDiscover_def)

text \<open>
  One jurisdiction makes one discovery call when it returns, and at most that one when
  it throws.
\<close>

lemma discoverPhase_calls:
  "establishes (\<lambda>w. discoverCalls w = cs) (discoverPhase f e abbrev stateName)
     (\<lambda>ds w. discoverCalls w = cs @ [Discover stateName])
     (\<lambda>w. discoverCalls w = cs \<or> discoverCalls w = cs @ [Discover stateName])"
  unfolding discoverPhase_def
  apply (rule establishes_after [where R = quiet])
     apply (rule keeps_update [OF steady_quiet harmless_allows(2) [OF harmless_quiet]])
    apply (erule (1) quiet_calls)
   apply simp
  apply (rule establishes_after [where R = quiet])
     apply (rule keeps_quiet_logProgress)
    apply (erule (1) quiet_calls)
   apply simp
  apply (rule establishes_after [where R = quiet])
     apply (rule keeps_quiet_logProgress)
    apply (erule (1) quiet_calls)
   apply simp
  apply (rule establishes_bind [OF discoverCasinosByState_calls])
  apply (rule establishes_after [where R = quiet])
     apply (rule keeps_quiet_logProgress)
    apply (erule (1) quiet_calls)
   apply simp
  apply (rule establishes_ret)
  apply assumption
  done

lemma keeps_quiet_afterDiscovery:
  "keeps quiet (bind (venuePhase f e abbrev stateName discoveredCasinos)
                  (\<lambda>missing. researchPhase f e abbrev stateName missing v))"
  by (intro keeps_bind keeps_venuePhase keeps_researchPhase steady_quiet harmless_quiet allows_quiet)

lemma processState_calls:
  "establishes (\<lambda>w. discoverCalls w = cs) (processState f e entry v)
     (\<lambda>v' w. discoverCalls w = cs @ [Discover (snd entry)])
     (\<lambda>w. discoverCalls w = cs \<or> discoverCalls w = cs @ [Discover (snd entry)])"
  unfolding processState_def
  apply (rule establishes_bind [OF discoverPhase_calls])
  apply (rule establishes_weaken [OF establishes_keeps [OF keeps_quiet_afterDiscovery]])
     apply (erule (1) quiet_calls)
    apply assumption
   apply assumption
  apply simp
  done

lemma statesLoop_calls:
  "establishes (\<lambda>w. discoverCalls w = cs) (statesLoop f e sts v)
     (\<lambda>v' w. discoverCalls w = cs @ map (\<lambda>entry. Discover (snd entry)) sts) (\<lambda>w. True)"
proof (induction sts arbitrary: cs v)
  case Nil
  show ?case by (simp add: establishes_def)
next
  case (Cons entry sts)
  have "establishes (\<lambda>w. discoverCalls w = cs) (processState f e entry v)
     (\<lambda>v' w. discoverCalls w = cs @ [Discover (snd entry)]) (\<lambda>w. True)"
    by (rule establishes_weaken [OF processState_calls]) simp_all
  then show ?case
    unfolding statesLoop.simps
    by (rule establishes_bind) (use Cons.IH [of "cs @ [Discover (snd entry)]"] in simp)
qed

subsection \<open>The loop over the jurisdictions\<close>

text \<open>
  A loop that throws has completed the jurisdictions before one of its entries and
  thrown inside that entry; the entries after it are never reached.
\<close>

lemma statesLoop_Inl:
  "statesLoop f e sts v w = Inl (thrown, w') \<Longrightarrow>
     \<exists>before entry rest v0 w0.
       sts = before @ entry # rest \<and> statesLoop f e before v w = Inr (v0, w0) \<and>
       processState f e entry v0 w0 = Inl (thrown, w')"
proof (induction sts arbitrary: v w)
  case Nil
  then show ?case by simp
next
  case (Cons entry sts)
  from Cons.prems consider
    (here) "processState f e entry v w = Inl (thrown, w')"
    | (later) v1 w1 where "processState f e entry v w = Inr (v1, w1)"
        "statesLoop f e sts v1 w1 = Inl (thrown, w')"
    by (auto simp: bind_Inl)
  then show ?case
  proof cases
    case here
    then have "entry # sts = [] @ entry # sts \<and> statesLoop f e [] v w = Inr (v, w) \<and>
               processState f e entry v w = Inl (thrown, w')"
      by simp
    then show ?thesis by blast
  next
    case later
    from Cons.IH [OF later(2)] obtain before entry' rest v0 w0 where
      d: "sts = before @ entry' # rest" "statesLoop f e before v1 w1 = Inr (v0, w0)"
         "processState f e entry' v0 w0 = Inl (thrown, w')"
      by blast
    have "entry # sts = (entry # before) @ entry' # rest \<and>
          statesLoop f e (entry # before) v w = Inr (v0, w0) \<and>
          processState f e entry' v0 w0 = Inl (thrown, w')"
      using d later(1) by (simp add: bind_returned)
    then show ?thesis by blast
  qed
qed

text \<open>The loop is deterministic in its first part: what it does on a prefix it does on the whole.\<close>

lemma statesLoop_append:
  "statesLoop f e before v w = Inr (v0, w0) \<Longrightarrow>
     statesLoop f e (before @ rest) v w = statesLoop f e rest v0 w0"
proof (induction before arbitrary: v w)
  case Nil
  then show ?case by simp
next
  case (Cons entry before)
  from Cons.prems obtain v1 w1 where
    one: "processState f e entry v w = Inr (v1, w1)"
    and more: "statesLoop f e before v1 w1 = Inr (v0, w0)"
    by (auto simp: bind_Inr)
  from Cons.IH [OF more] one show ?case
    by (simp add: bind_returned)
qed

subsection \<open>The whole run\<close>

lemma logProgress_Inr:
  "logProgress f e msg w = Inr (u, w') \<longleftrightarrow>
     f (ops w) = None \<and> w' = pushLog e msg (w\<lparr>ops := Suc (ops w)\<rparr>)"
  by (simp add: logProgress_def update_Inr)

lemma logProgress_reliable [simp]:
  "logProgress reliable e msg w = Inr ((), pushLog e msg (w\<lparr>ops := Suc (ops w)\<rparr>))"
  by (simp add: logProgress_def)

lemma afterLoop_Inr:
  assumes "afterLoop f e v w = Inr (u, W)"
  shows "status (run W) = Completed" and "completedAt (run W) \<noteq> None"
    and "currentState (run W) = None" and "currentCasino (run W) = None"
    and "missingCasinos (run W) = var_missingCasinos v"
    and "offerComparisons (run W) = var_offerComparisons v"
    and "summary (run W) =
           \<lparr>totalMissingCasinos = Some (countMissing (var_missingCasinos v)),
            totalNewOffers = Some (var_totalNewOffers v),
            statesProcessed = map snd states\<rparr>"
    and "casinos W = casinos w" and "offers W = offers w" and "calls W = calls w"
    and "offersProcessed (run W) = offersProcessed (run w)"
  using assms
  by (auto simp: afterLoop_def bind_Inr logProgress_Inr update_Inr pushLog_def markCompleted_def)

text \<open>
  The closing part of the body writes what \<open>R\<close> may forbid only in its last operation;
  when it throws, that write has not happened.
\<close>

lemma afterLoop_thrown:
  assumes "harmless R"
  shows "establishes (R w0) (afterLoop f e v) (\<lambda>u w. True) (R w0)"
proof -
  note st = harmless_steady [OF assms]
  have final: "establishes (R w0) (update f wr) (\<lambda>u w. True) (R w0)" for wr
  proof (rule establishesI)
    fix w thrown w'
    assume "R w0 w" and "update f wr w = Inl (thrown, w')"
    then have "R w0 w" and "w' = w\<lparr>ops := Suc (ops w)\<rparr>"
      by (auto simp: update_Inl)
    moreover have "R w (w\<lparr>ops := Suc (ops w)\<rparr>)"
      using st by (simp add: steady_def)
    ultimately show "R w0 w'"
      using steady_trans [OF st] by blast
  qed simp
  show ?thesis
    unfolding afterLoop_def
    apply (rule establishes_after [where R = R])
       apply (rule keeps_logProgress [OF st harmless_allows(1) [OF assms]])
      apply (erule (1) steady_trans [OF st])
     apply assumption
    apply (rule establishes_after [where R = R])
       apply (rule keeps_logProgress [OF st harmless_allows(1) [OF assms]])
      apply (erule (1) steady_trans [OF st])
     apply assumption
    apply (rule establishes_after [where R = R])
       apply (rule keeps_logProgress [OF st harmless_allows(1) [OF assms]])
      apply (erule (1) steady_trans [OF st])
     apply assumption
    apply (rule final)
    done
qed

lemma researchBody_Inr:
  "researchBody f e w = Inr (u, W) \<longleftrightarrow>
     (\<exists>w1 v w2. beforeLoop f e w = Inr ((), w1) \<and> statesLoop f e states initialVars w1 = Inr (v, w2) \<and>
                 afterLoop f e v w2 = Inr ((), W))"
  by (auto simp: researchBody_def bind_Inr)

text \<open>An error leaves the body before the loop, out of the loop, or after it.\<close>

lemma researchBody_Inl:
  "researchBody f e w = Inl (thrown, w') \<longleftrightarrow>
     beforeLoop f e w = Inl (thrown, w') \<or>
     (\<exists>w1. beforeLoop f e w = Inr ((), w1) \<and>
           statesLoop f e states initialVars w1 = Inl (thrown, w')) \<or>
     (\<exists>w1 v w2. beforeLoop f e w = Inr ((), w1) \<and>
           statesLoop f e states initialVars w1 = Inr (v, w2) \<and>
           afterLoop f e v w2 = Inl (thrown, w'))"
  by (auto simp: researchBody_def bind_Inl bind_Inr)

lemma researchBody_thrown:
  assumes "harmless R" and "\<And>c. allows R (noteCall c)" and "\<And>d. allows R (insertCasino d)"
    and "\<And>d. allows R (insertOffer d)" and "\<And>n. allows R (setOffersProcessed n)"
    and "researchBody f e w = Inl (thrown, w')"
  shows "R w w'"
proof -
  note st = harmless_steady [OF assms(1)]
  note before = keeps_beforeLoop [OF assms(1), of f e]
  note loop = keeps_statesLoop [OF assms(1-5), of f e states initialVars]
  from assms(6) consider
    (before) "beforeLoop f e w = Inl (thrown, w')"
    | (loop) w1 where "beforeLoop f e w = Inr ((), w1)"
        "statesLoop f e states initialVars w1 = Inl (thrown, w')"
    | (after) w1 v w2 where "beforeLoop f e w = Inr ((), w1)"
        "statesLoop f e states initialVars w1 = Inr (v, w2)"
        "afterLoop f e v w2 = Inl (thrown, w')"
    unfolding researchBody_Inl by blast
  then show ?thesis
  proof cases
    case before
    then show ?thesis by (rule keeps_Inl [OF \<open>keeps R (beforeLoop f e)\<close>])
  next
    case loop
    from keeps_Inr [OF \<open>keeps R (beforeLoop f e)\<close> loop(1)]
      keeps_Inl [OF \<open>keeps R (statesLoop f e states initialVars)\<close> loop(2)]
    show ?thesis by (rule steady_trans [OF st])
  next
    case after
    have "R w w2"
      using keeps_Inr [OF \<open>keeps R (beforeLoop f e)\<close> after(1)]
        keeps_Inr [OF \<open>keeps R (statesLoop f e states initialVars)\<close> after(2)]
      by (rule steady_trans [OF st])
    then show ?thesis
      using establishes_Inl [OF afterLoop_thrown [OF assms(1)] _ after(3)] by blast
  qed
qed

text \<open>The \<^verbatim>\<open>catch\<close> block, by the answers of the database to its two writes.\<close>

lemma researchFailed_world:
  "worldOf (researchFailed f e thrown w) =
     (case f (ops w) of
        Some rejected \<Rightarrow> w\<lparr>ops := Suc (ops w)\<rparr>
      | None \<Rightarrow>
          (case f (Suc (ops w)) of
             Some rejected \<Rightarrow>
               (pushLog e (glyphFailed @ '' Research failed: '' @ message thrown)
                  (w\<lparr>ops := Suc (ops w)\<rparr>))\<lparr>ops := Suc (Suc (ops w))\<rparr>
           | None \<Rightarrow>
               markFailed e
                 ((pushLog e (glyphFailed @ '' Research failed: '' @ message thrown)
                     (w\<lparr>ops := Suc (ops w)\<rparr>))\<lparr>ops := Suc (Suc (ops w))\<rparr>)))"
  by (simp add: researchFailed_def logProgress_def bind_def update_def pushLog_def
           split: option.splits)

lemma researchFailed_fields:
  "casinos (worldOf (researchFailed f e thrown w)) = casinos w"
  "offers (worldOf (researchFailed f e thrown w)) = offers w"
  "calls (worldOf (researchFailed f e thrown w)) = calls w"
  "offersProcessed (run (worldOf (researchFailed f e thrown w))) = offersProcessed (run w)"
  "summary (run (worldOf (researchFailed f e thrown w))) = summary (run w)"
  "missingCasinos (run (worldOf (researchFailed f e thrown w))) = missingCasinos (run w)"
  "offerComparisons (run (worldOf (researchFailed f e thrown w))) = offerComparisons (run w)"
  "status (run (worldOf (researchFailed f e thrown w))) = Failed \<or>
   status (run (worldOf (researchFailed f e thrown w))) = status (run w)"
  by (simp_all add: researchFailed_world pushLog_def markFailed_def split: option.splits)

lemma discoverCalls_researchFailed:
  "discoverCalls (worldOf (researchFailed f e thrown w)) = discoverCalls w"
  by (simp add: discoverCalls_def researchFailed_fields)

lemma performResearch_Inr: "researchBody f e w = Inr (u, W) \<Longrightarrow> performResearch f e w = W"
  by (simp add: performResearch_def)

lemma performResearch_Inl:
  "researchBody f e w = Inl (thrown, w') \<Longrightarrow>
     performResearch f e w = worldOf (researchFailed f e thrown w')"
  by (simp add: performResearch_def)

lemma grows_thrown: "researchBody f e w = Inl (thrown, w') \<Longrightarrow> grows w w'"
  by (rule researchBody_thrown [OF harmless_grows allows_grows(4,1,2,3)])

text \<open>A run ends completed exactly when its body returns.\<close>

lemma completed_iff:
  assumes "status (run w) \<noteq> Completed"
  shows "status (run (performResearch f e w)) = Completed \<longleftrightarrow> (\<exists>W. researchBody f e w = Inr ((), W))"
proof (cases "researchBody f e w")
  case (Inl a)
  obtain thrown w' where a: "a = (thrown, w')" by (cases a)
  from grows_thrown [OF Inl [unfolded a]] have "status (run w') = status (run w)"
    by (simp add: grows_def)
  with assms researchFailed_fields(8) [of f e thrown w'] Inl a show ?thesis
    by (auto simp: performResearch_def)
next
  case (Inr b)
  obtain u W where b: "b = (u, W)" by (cases b)
  from Inr b obtain v w2 where "afterLoop f e v w2 = Inr ((), W)"
    by (auto simp: researchBody_Inr)
  from afterLoop_Inr(1) [OF this] Inr b show ?thesis
    by (simp add: performResearch_def)
qed

lemma startRun_eq: "startRun f e cs os = performResearch f e (initialWorld cs os)"
  by (simp add: startRun_def)

lemma initialWorld_simps [simp]:
  "casinos (initialWorld cs os) = cs" "offers (initialWorld cs os) = os"
  "calls (initialWorld cs os) = []" "ops (initialWorld cs os) = 0"
  "run (initialWorld cs os) = createRun"
  by (simp_all add: initialWorld_def)

lemma exact_initial: "exact os initialVars (initialWorld cs os)"
  by (simp add: exact_def inserted_def counted_def initialVars_def createRun_def)

lemma countMissing_sum: "countMissing ms = sum_list (map (\<lambda>m. length (m_casinos m)) ms)"
proof -
  have "foldl (\<lambda>sum s. sum + length (m_casinos s)) a ms = a + sum_list (map (\<lambda>m. length (m_casinos m)) ms)" for a
    by (induction ms arbitrary: a) simp_all
  then show ?thesis by (simp add: countMissing_def)
qed

text \<open>What the body of a run establishes about the bookkeeping of offers.\<close>

lemma beforeLoop_tally:
  "establishes (exact base v) (beforeLoop f e) (\<lambda>u. exact base v) (lagging base)"
  by (rule establishes_weaken
        [OF establishes_keeps [where P = "exact base v", OF keeps_beforeLoop [OF harmless_sameOffers]]])
     (auto elim: exact_sameOffers exact_lagging)


subsection \<open>Runs that discover nothing, on a database that rejects nothing\<close>

lemma researchCasino_empty:
  assumes "\<forall>n cName stateName. offersOf e (callClaudeAPI e n (Research cName stateName)) = JArray []"
  shows "\<exists>v' w'. researchCasino reliable e stateName abbrev c v w = Inr (v', w') \<and>
           casinos w' = casinos w \<and> offers w' = offers w \<and>
           calls w' = calls w @ [Research (name c) stateName]"
  by (simp add: researchCasino_def surveyOffers_def Let_def bind_def researchCasinoOffers_def assms
        offersArray_def noteCall_def pushLog_def setCurrentCasino_def setOffersProcessed_def)

lemma researchAll_empty:
  assumes "\<forall>n cName stateName. offersOf e (callClaudeAPI e n (Research cName stateName)) = JArray []"
  shows "\<exists>v' w'. researchAll reliable e stateName abbrev cs v w = Inr (v', w') \<and>
           casinos w' = casinos w \<and> offers w' = offers w \<and>
           calls w' = calls w @ map (\<lambda>c. Research (name c) stateName) cs"
proof (induction cs arbitrary: v w)
  case Nil
  show ?case by simp
next
  case (Cons c cs)
  from researchCasino_empty [OF assms, of stateName abbrev c v w] obtain v1 w1 where
    one: "researchCasino reliable e stateName abbrev c v w = Inr (v1, w1)"
      "casinos w1 = casinos w" "offers w1 = offers w"
      "calls w1 = calls w @ [Research (name c) stateName]"
    by blast
  from Cons.IH [of v1 w1] obtain v' w' where
    "researchAll reliable e stateName abbrev cs v1 w1 = Inr (v', w')"
    "casinos w' = casinos w1" "offers w' = offers w1"
    "calls w' = calls w1 @ map (\<lambda>c. Research (name c) stateName) cs"
    by blast
  with one show ?case
    by (simp add: bind_returned)
qed

lemma processState_empty:
  assumes "\<forall>n stateName. casinosOf e (callClaudeAPI e n (Discover stateName)) = JArray []"
    and "\<forall>n cName stateName. offersOf e (callClaudeAPI e n (Research cName stateName)) = JArray []"
  shows "\<exists>v' w'. processState reliable e entry v w = Inr (v', w') \<and>
           casinos w' = casinos w \<and> offers w' = offers w \<and>
           calls w' = calls w @ Discover (snd entry) #
             map (\<lambda>c. Research (name c) (snd entry))
               (filter (\<lambda>c. stateAbbreviation c = fst entry) (casinos w))"
proof -
  obtain w5 where
    dp: "discoverPhase reliable e (fst entry) (snd entry) w = Inr (JArray [], w5)"
    and w5: "casinos w5 = casinos w" "offers w5 = offers w" "calls w5 = calls w @ [Discover (snd entry)]"
    by (simp add: discoverPhase_def bind_def discoverCasinosByState_def assms(1) noteCall_def
          pushLog_def setCurrentState_def)
  obtain w6 where
    vp: "venuePhase reliable e (fst entry) (snd entry) (JArray []) w5 = Inr ([], w6)"
    and w6: "casinos w6 = casinos w5" "offers w6 = offers w5" "calls w6 = calls w5"
    by (simp add: venuePhase_def bind_def candidates_def compute_def)
  let ?w7 = "pushLog e (''  '' @ glyphDone @ '' No missing casinos in '' @ snd entry) (w6\<lparr>ops := Suc (ops w6)\<rparr>)"
  let ?all = "filter (\<lambda>c. stateAbbreviation c = fst entry) (casinos w)"
  let ?w8 = "pushLog e (''  '' @ glyphSearch @ '' Researching offers for '' @
                  showNat (length ?all) @ '' casinos in '' @ snd entry @ ''...'')
               (?w7\<lparr>ops := Suc (Suc (Suc (ops w6)))\<rparr>)"
  from researchAll_empty [OF assms(2), of "snd entry" "fst entry" ?all v ?w8] obtain v' w9 where
    ra: "researchAll reliable e (snd entry) (fst entry) ?all v ?w8 = Inr (v', w9)"
    and w9: "casinos w9 = casinos ?w8" "offers w9 = offers ?w8"
      "calls w9 = calls ?w8 @ map (\<lambda>c. Research (name c) (snd entry)) ?all"
    by blast
  have "\<exists>w'. researchPhase reliable e (fst entry) (snd entry) [] v w6 = Inr (v', w') \<and>
          casinos w' = casinos w9 \<and> offers w' = offers w9 \<and> calls w' = calls w9"
    using ra w6(1) w5(1)
    by (simp add: researchPhase_def Let_def bind_def pushLog_def)
  then obtain w' where
    rp: "researchPhase reliable e (fst entry) (snd entry) [] v w6 = Inr (v', w')"
    and w': "casinos w' = casinos w9" "offers w' = offers w9" "calls w' = calls w9"
    by blast
  have "processState reliable e entry v w = Inr (v', w')"
    using dp vp rp by (simp add: processState_def bind_returned)
  moreover have "casinos w' = casinos w" "offers w' = offers w"
    "calls w' = calls w @ Discover (snd entry) # map (\<lambda>c. Research (name c) (snd entry)) ?all"
    using w' w9 w6 w5 by (simp_all add: pushLog_def)
  ultimately show ?thesis by blast
qed

lemma statesLoop_empty:
  assumes "\<forall>n stateName. casinosOf e (callClaudeAPI e n (Discover stateName)) = JArray []"
    and "\<forall>n cName stateName. offersOf e (callClaudeAPI e n (Research cName stateName)) = JArray []"
  shows "\<exists>v' w'. statesLoop reliable e sts v w = Inr (v', w') \<and> casinos w' = casinos w \<and>
           offers w' = offers w \<and>
           calls w' = calls w @
             concat (map (\<lambda>entry. Discover (snd entry) #
                    map (\<lambda>c. Research (name c) (snd entry))
                      (filter (\<lambda>c. stateAbbreviation c = fst entry) (casinos w))) sts)"
proof (induction sts arbitrary: v w)
  case Nil
  show ?case by simp
next
  case (Cons entry sts)
  from processState_empty [OF assms, of entry v w] obtain v1 w1 where
    one: "processState reliable e entry v w = Inr (v1, w1)" "casinos w1 = casinos w"
      "offers w1 = offers w"
      "calls w1 = calls w @ Discover (snd entry) #
             map (\<lambda>c. Research (name c) (snd entry))
               (filter (\<lambda>c. stateAbbreviation c = fst entry) (casinos w))"
    by blast
  from Cons.IH [of v1 w1] obtain v' w' where
    "statesLoop reliable e sts v1 w1 = Inr (v', w')" "casinos w' = casinos w1"
    "offers w' = offers w1"
    "calls w' = calls w1 @
             concat (map (\<lambda>entry. Discover (snd entry) #
                    map (\<lambda>c. Research (name c) (snd entry))
                      (filter (\<lambda>c. stateAbbreviation c = fst entry) (casinos w1))) sts)"
    by blast
  with one show ?case
    by (simp add: bind_returned)
qed

subsection \<open>Candidates on which venue matching throws\<close>

lemma isl_bind: "(\<And>x w'. a w = Inr (x, w') \<Longrightarrow> isl (k x w')) \<Longrightarrow> isl (bind a k w)"
  by (cases "a w") (auto simp: bind_def)

lemma isl_thrown: "isl (a w) \<Longrightarrow> isl (bind a k w)"
  by (cases "a w") (auto simp: bind_def)

lemma storeDiscovered_unmatchable:
  "list_ex (unmatchable e) ds \<Longrightarrow> isl (storeDiscovered f e stateName abbrev ds missing w)"
proof (induction ds arbitrary: missing w)
  case Nil
  then show ?case by simp
next
  case (Cons d ds)
  show ?case
  proof (cases "unmatchable e d")
    case True
    then show ?thesis
      by (auto simp: unmatchable_def bind_def compute_def isl_def split: sum.splits)
  next
    case False
    with Cons.prems have "list_ex (unmatchable e) ds" by simp
    note rest = Cons.IH [OF this]
    show ?thesis
      unfolding storeDiscovered.simps
      by (intro isl_bind) (auto split: option.splits intro!: isl_bind rest)
  qed
qed

lemma discoverPhase_answer:
  "discoverPhase f e abbrev stateName w = Inr (discoveredCasinos, w') \<Longrightarrow>
     \<exists>n. discoveredCasinos = casinosOf e (callClaudeAPI e n (Discover stateName))"
  by (auto simp: discoverPhase_def bind_Inr discoverCasinosByState_def)

lemma processState_unmatchable:
  assumes "\<forall>n. \<exists>ds. casinosOf e (callClaudeAPI e n (Discover stateName)) = JArray ds \<and>
                    list_ex (unmatchable e) ds"
  shows "isl (processState f e (abbrev, stateName) v w)"
  unfolding processState_def
proof (rule isl_bind)
  fix discoveredCasinos w5
  assume "discoverPhase f e (fst (abbrev, stateName)) (snd (abbrev, stateName)) w =
            Inr (discoveredCasinos, w5)"
  with discoverPhase_answer [of f e abbrev stateName w discoveredCasinos w5] assms
  obtain ds where ds: "discoveredCasinos = JArray ds" "list_ex (unmatchable e) ds"
    by auto
  have "isl (venuePhase f e abbrev stateName (JArray ds) w5)"
    unfolding venuePhase_def
    by (intro isl_bind) (auto simp: candidates_def intro: storeDiscovered_unmatchable [OF ds(2)])
  then show "isl (bind (venuePhase f e (fst (abbrev, stateName)) (snd (abbrev, stateName))
                          discoveredCasinos)
                    (\<lambda>missing. researchPhase f e (fst (abbrev, stateName)) (snd (abbrev, stateName))
                                  missing v) w5)"
    using ds(1) by (auto simp: bind_def isl_def split: sum.splits)
qed

lemma statesLoop_unmatchable:
  assumes "(abbrev, stateName) \<in> set sts"
    and "\<forall>n. \<exists>ds. casinosOf e (callClaudeAPI e n (Discover stateName)) = JArray ds \<and>
                    list_ex (unmatchable e) ds"
  shows "isl (statesLoop f e sts v w)"
  using assms(1)
proof (induction sts arbitrary: v w)
  case Nil
  then show ?case by simp
next
  case (Cons entry sts)
  show ?case
    unfolding statesLoop.simps
  proof (rule isl_bind)
    fix v1 w1
    assume "processState f e entry v w = Inr (v1, w1)"
    with processState_unmatchable [OF assms(2), of f abbrev v w] have "entry \<noteq> (abbrev, stateName)"
      by auto
    with Cons.prems have "(abbrev, stateName) \<in> set sts" by simp
    then show "isl (statesLoop f e sts v1 w1)" by (rule Cons.IH)
  qed
qed

subsection \<open>The discovery calls of a run that throws\<close>

lemma keeps_quiet_beforeLoop: "keeps quiet (beforeLoop f e)"
  by (rule keeps_beforeLoop [OF harmless_quiet])

text \<open>
  The jurisdiction in which an error is thrown has made its discovery call or not; it
  has when its first part, which ends after that call, returned.
\<close>

lemma entry_calls:
  assumes "discoverCalls w0 = cs" and "processState f e entry v0 w0 = Inl (thrown, w')"
  shows "discoverCalls w' = cs \<or> discoverCalls w' = cs @ [Discover (snd entry)]"
    and "discoverPhase f e (fst entry) (snd entry) w0 = Inr (ds, w5) \<Longrightarrow>
           discoverCalls w' = cs @ [Discover (snd entry)]"
proof -
  from establishes_Inl [OF processState_calls assms]
  show "discoverCalls w' = cs \<or> discoverCalls w' = cs @ [Discover (snd entry)]" .
  assume dp: "discoverPhase f e (fst entry) (snd entry) w0 = Inr (ds, w5)"
  from establishes_Inr [OF discoverPhase_calls assms(1) dp]
  have w5: "discoverCalls w5 = cs @ [Discover (snd entry)]" .
  from assms(2) dp have
    "bind (venuePhase f e (fst entry) (snd entry) ds)
       (\<lambda>missing. researchPhase f e (fst entry) (snd entry) missing v0) w5 = Inl (thrown, w')"
    by (simp add: processState_def bind_returned)
  from keeps_Inl [OF keeps_quiet_afterDiscovery this] w5
  show "discoverCalls w' = cs @ [Discover (snd entry)]"
    by (simp add: quiet_def)
qed

lemma body_calls:
  assumes "researchBody f e w = Inl (thrown, w')"
  shows "(beforeLoop f e w = Inl (thrown, w') \<and> discoverCalls w' = discoverCalls w) \<or>
         (\<exists>w1 before entry rest v0 w0.
            beforeLoop f e w = Inr ((), w1) \<and> states = before @ entry # rest \<and>
            statesLoop f e before initialVars w1 = Inr (v0, w0) \<and>
            processState f e entry v0 w0 = Inl (thrown, w') \<and>
            (discoverCalls w' = discoverCalls w @ map (\<lambda>entry. Discover (snd entry)) before \<or>
             discoverCalls w' =
               discoverCalls w @ map (\<lambda>entry. Discover (snd entry)) (before @ [entry]))) \<or>
         (\<exists>w1 v w2.
            beforeLoop f e w = Inr ((), w1) \<and> statesLoop f e states initialVars w1 = Inr (v, w2) \<and>
            afterLoop f e v w2 = Inl (thrown, w') \<and>
            discoverCalls w' = discoverCalls w @ map (\<lambda>entry. Discover (snd entry)) states)"
proof -
  from assms consider
    (before) "beforeLoop f e w = Inl (thrown, w')"
    | (loop) w1 where "beforeLoop f e w = Inr ((), w1)"
        "statesLoop f e states initialVars w1 = Inl (thrown, w')"
    | (after) w1 v w2 where "beforeLoop f e w = Inr ((), w1)"
        "statesLoop f e states initialVars w1 = Inr (v, w2)"
        "afterLoop f e v w2 = Inl (thrown, w')"
    unfolding researchBody_Inl by blast
  then show ?thesis
  proof cases
    case before
    with keeps_Inl [OF keeps_quiet_beforeLoop before] show ?thesis
      by (simp add: quiet_def)
  next
    case loop
    from keeps_Inr [OF keeps_quiet_beforeLoop loop(1)]
    have w1: "discoverCalls w1 = discoverCalls w"
      by (simp add: quiet_def)
    from statesLoop_Inl [OF loop(2)] obtain before entry rest v0 w0 where
      d: "states = before @ entry # rest" "statesLoop f e before initialVars w1 = Inr (v0, w0)"
         "processState f e entry v0 w0 = Inl (thrown, w')"
      by blast
    from establishes_Inr [OF statesLoop_calls w1 d(2)]
    have w0: "discoverCalls w0 = discoverCalls w @ map (\<lambda>entry. Discover (snd entry)) before" .
    from entry_calls(1) [OF w0 d(3)]
    have "discoverCalls w' = discoverCalls w @ map (\<lambda>entry. Discover (snd entry)) before \<or>
             discoverCalls w' =
               discoverCalls w @ map (\<lambda>entry. Discover (snd entry)) (before @ [entry])"
      by simp
    with loop(1) d show ?thesis by blast
  next
    case after
    from keeps_Inr [OF keeps_quiet_beforeLoop after(1)]
    have w1: "discoverCalls w1 = discoverCalls w"
      by (simp add: quiet_def)
    from establishes_Inr [OF statesLoop_calls w1 after(2)]
    have w2: "discoverCalls w2 = discoverCalls w @ map (\<lambda>entry. Discover (snd entry)) states" .
    have "quiet w2 w'"
      using establishes_Inl [OF afterLoop_thrown [OF harmless_quiet] _ after(3)]
        steady_refl [OF steady_quiet] by blast
    with w2 have "discoverCalls w' = discoverCalls w @ map (\<lambda>entry. Discover (snd entry)) states"
      by (simp add: quiet_def)
    with after show ?thesis by blast
  qed
qed

lemma body_calls_returned:
  assumes "researchBody f e w = Inr (u, W)"
  shows "discoverCalls W = discoverCalls w @ map (\<lambda>entry. Discover (snd entry)) states"
proof -
  from assms obtain w1 v w2 where
    p: "beforeLoop f e w = Inr ((), w1)" "statesLoop f e states initialVars w1 = Inr (v, w2)"
       "afterLoop f e v w2 = Inr ((), W)"
    unfolding researchBody_Inr by blast
  from keeps_Inr [OF keeps_quiet_beforeLoop p(1)]
  have w1: "discoverCalls w1 = discoverCalls w"
    by (simp add: quiet_def)
  from establishes_Inr [OF statesLoop_calls w1 p(2)] afterLoop_Inr(10) [OF p(3)]
  show ?thesis
    by (simp add: discoverCalls_def)
qed

lemma names_of_states:
  "map (\<lambda>entry. Discover (snd entry)) states =
     map Discover [''New Jersey'', ''Michigan'', ''Pennsylvania'', ''West Virginia'']"
  by (simp add: states_def)

section \<open>Claims on offer matching\<close>

lemma set_findCurrentOffers:
  "set (findCurrentOffers cName abbrev os) =
     {stored \<in> set os. casinoName stored = cName \<and> offerStateAbbreviation stored = abbrev \<and>
                       source stored = ''internal-api''}"
  by (auto simp: findCurrentOffers_def)

text \<open>
  Whether the comparison of a discovered offer with a stored offer throws depends on the
  discovered offer alone; when it returns, the lower-cased name and type it has read are
  those of the text of the two fields.
\<close>

lemma lowerOf_Inr:
  "lowerOf e notString key dOffer = Inr r \<Longrightarrow> r = map_option (toLowerCase e) (textOf key dOffer)"
  by (auto simp: lowerOf_def textOf_def split: if_splits option.splits json.splits)

lemma lowerOf_site:
  "lowerOf e notString key dOffer = Inr r \<Longrightarrow> lowerOf e notString' key dOffer = Inr r"
  by (auto simp: lowerOf_def split: if_splits option.splits json.splits)

lemma nameMatch_Inr:
  assumes "nameMatch e cOffer dOffer = Inr b"
  shows "lowerOf e DiscoveredNameNotString ''offerName'' dOffer =
           Inr (map_option (toLowerCase e) (textOf ''offerName'' dOffer))"
    and "b \<longleftrightarrow>
           (case offerName cOffer of
              None \<Rightarrow> False
            | Some sName \<Rightarrow>
                str_includes (toLowerCase e sName)
                  (searchText (map_option (toLowerCase e) (textOf ''offerName'' dOffer)))) \<or>
           (case textOf ''offerName'' dOffer of
              None \<Rightarrow> False
            | Some dName \<Rightarrow>
                str_includes (toLowerCase e dName)
                  (searchText (map_option (toLowerCase e) (offerName cOffer))))"
proof -
  from assms obtain r where r: "lowerOf e DiscoveredNameNotString ''offerName'' dOffer = Inr r"
    by (cases "lowerOf e DiscoveredNameNotString ''offerName'' dOffer")
       (auto simp: nameMatch_def split: option.splits)
  from lowerOf_Inr [OF r] r
  show low: "lowerOf e DiscoveredNameNotString ''offerName'' dOffer =
           Inr (map_option (toLowerCase e) (textOf ''offerName'' dOffer))"
    by simp
  from assms show "b \<longleftrightarrow>
           (case offerName cOffer of
              None \<Rightarrow> False
            | Some sName \<Rightarrow>
                str_includes (toLowerCase e sName)
                  (searchText (map_option (toLowerCase e) (textOf ''offerName'' dOffer)))) \<or>
           (case textOf ''offerName'' dOffer of
              None \<Rightarrow> False
            | Some dName \<Rightarrow>
                str_includes (toLowerCase e dName)
                  (searchText (map_option (toLowerCase e) (offerName cOffer))))"
    unfolding nameMatch_def low
    by (auto split: option.splits bool.splits if_splits)
qed

lemma nameMatch_returns:
  "lowerOf e DiscoveredNameNotString ''offerName'' dOffer = Inr r \<Longrightarrow>
     \<exists>b. nameMatch e cOffer dOffer = Inr b"
  by (auto simp: nameMatch_def split: option.splits bool.splits)

lemma typeMatch_Inr:
  assumes "typeMatch e cOffer dOffer = Inr b"
  shows "lowerOf e DiscoveredTypeNotString ''offerType'' dOffer =
           Inr (map_option (toLowerCase e) (textOf ''offerType'' dOffer))"
    and "b \<longleftrightarrow> map_option (toLowerCase e) (offerType cOffer) =
                 map_option (toLowerCase e) (textOf ''offerType'' dOffer)"
proof -
  from assms obtain r where r: "lowerOf e DiscoveredTypeNotString ''offerType'' dOffer = Inr r"
    by (cases "lowerOf e DiscoveredTypeNotString ''offerType'' dOffer")
       (auto simp: typeMatch_def)
  from lowerOf_Inr [OF r] r
  show low: "lowerOf e DiscoveredTypeNotString ''offerType'' dOffer =
           Inr (map_option (toLowerCase e) (textOf ''offerType'' dOffer))"
    by simp
  from assms show "b \<longleftrightarrow> map_option (toLowerCase e) (offerType cOffer) =
                 map_option (toLowerCase e) (textOf ''offerType'' dOffer)"
    unfolding typeMatch_def low by auto
qed

text \<open>The rule that the callback of \<^verbatim>\<open>some\<close> computes when it returns.\<close>

lemma offerMatches_Inr:
  assumes "offerMatches e cOffer dOffer = Inr b"
  shows "b \<longleftrightarrow>
           (case offerName cOffer of
              None \<Rightarrow> False
            | Some sName \<Rightarrow>
                str_includes (toLowerCase e sName)
                  (searchText (map_option (toLowerCase e) (textOf ''offerName'' dOffer)))) \<or>
           (case textOf ''offerName'' dOffer of
              None \<Rightarrow> False
            | Some dName \<Rightarrow>
                str_includes (toLowerCase e dName)
                  (searchText (map_option (toLowerCase e) (offerName cOffer)))) \<or>
           (map_option (toLowerCase e) (offerType cOffer) =
              map_option (toLowerCase e) (textOf ''offerType'' dOffer) \<and>
            amountMatch e cOffer dOffer)"
proof -
  from assms obtain names types where
    n: "nameMatch e cOffer dOffer = Inr names" and t: "typeMatch e cOffer dOffer = Inr types"
    and b: "b = (names \<or> (types \<and> amountMatch e cOffer dOffer))"
    by (auto simp: offerMatches_def split: sum.splits)
  from nameMatch_Inr(2) [OF n] typeMatch_Inr(2) [OF t] b show ?thesis
    by blast
qed

lemma offerMatches_returns:
  assumes "offerMatches e cOffer dOffer = Inr b"
  shows "\<exists>b'. offerMatches e cOffer' dOffer = Inr b'"
proof -
  from assms obtain names types where
    n: "nameMatch e cOffer dOffer = Inr names" and t: "typeMatch e cOffer dOffer = Inr types"
    by (auto simp: offerMatches_def split: sum.splits)
  from nameMatch_returns [OF nameMatch_Inr(1) [OF n], of cOffer'] typeMatch_Inr(1) [OF t]
  show ?thesis
    by (auto simp: offerMatches_def typeMatch_def)
qed

text \<open>\<^verbatim>\<open>some\<close> returns whether a stored offer matches, when it returns.\<close>

lemma offerExists_Inr:
  "offerExists e current dOffer = Inr b \<Longrightarrow>
     (b \<longleftrightarrow> (\<exists>cOffer\<in>set current. offerMatches e cOffer dOffer = Inr True)) \<and>
     (\<forall>cOffer\<in>set current. \<exists>b'. offerMatches e cOffer dOffer = Inr b')"
proof (induction current)
  case Nil
  then show ?case by simp
next
  case (Cons c current)
  from Cons.prems obtain b0 where b0: "offerMatches e c dOffer = Inr b0"
    by (cases "offerMatches e c dOffer") auto
  have all: "\<forall>cOffer\<in>set (c # current). \<exists>b'. offerMatches e cOffer dOffer = Inr b'"
    using offerMatches_returns [OF b0] by blast
  show ?case
  proof (cases b0)
    case True
    with b0 Cons.prems all show ?thesis by auto
  next
    case False
    with b0 Cons.prems have "offerExists e current dOffer = Inr b" by simp
    from Cons.IH [OF this] b0 False all show ?thesis by auto
  qed
qed

text \<open>\<^verbatim>\<open>filter\<close> keeps the offers for which \<^verbatim>\<open>some\<close> returned false, when it returns.\<close>

lemma findNewOffers_Inr:
  "findNewOffers e current ds = Inr new \<Longrightarrow> dOffer \<in> set ds \<Longrightarrow>
     \<exists>b. offerExists e current dOffer = Inr b \<and> (dOffer \<in> set new \<longleftrightarrow> \<not> b)"
proof (induction ds arbitrary: new)
  case Nil
  then show ?case by simp
next
  case (Cons d ds)
  from Cons.prems(1) obtain exists rest where
    ex: "offerExists e current d = Inr exists" and rest: "findNewOffers e current ds = Inr rest"
    and new: "new = (if exists then rest else d # rest)"
    by (auto split: sum.splits)
  show ?case
  proof (cases "dOffer = d")
    case True
    show ?thesis
    proof (cases "d \<in> set ds")
      case True
      from Cons.IH [OF rest] True \<open>dOffer = d\<close> ex new show ?thesis by auto
    next
      case False
      have "d \<notin> set rest"
        using rest False
      proof (induction ds arbitrary: rest)
        case Nil
        then show ?case by simp
      next
        case (Cons x xs)
        then show ?case by (auto split: sum.splits if_splits)
      qed
      with \<open>dOffer = d\<close> ex new show ?thesis by auto
    qed
  next
    case False
    with Cons.prems(2) have "dOffer \<in> set ds" by simp
    from Cons.IH [OF rest this] False new show ?thesis by auto
  qed
qed

text \<open>
  Claim C1 as it is stated fails on three inputs, each beside one reference offer of the
  venue. (1) The reference offer has type welcome and bonus 50, the discovered offer an
  unrelated name, type welcome and bonus \<^verbatim>\<open>1e-15\<close>: the types are equal and the amounts
  differ by less than 50, but the difference of the two doubles rounds to 50, and the
  offer is classified as new. (2) The reference offer is named Undefined Bonus, of type
  reload and bonus 500, and the discovered offer has no name, type welcome and bonus
  10: no name is contained in the other, the types differ and the amounts differ by
  490, but \<^verbatim>\<open>includes\<close> searches the stored name for the text \<^verbatim>\<open>undefined\<close>, and the offer is
  classified as known. (3) The name of the discovered offer is the number 5: the
  comparison throws, and the offer is not classified.
\<close>

theorem offer_rule_fails:
  "findNewOffers silentEnv
     (findCurrentOffers ''Acme Casino'' ''NJ'' [storedOffer ''Welcome Bonus'' ''welcome'' 50])
     [bonusOffer ''Sign-Up Deal'' ''welcome'' tiny] =
     Inr [bonusOffer ''Sign-Up Deal'' ''welcome'' tiny] \<and>
   \<bar>50 - tiny\<bar> < 50 \<and>
   findNewOffers silentEnv
     (findCurrentOffers ''Acme Casino'' ''NJ'' [storedOffer ''Undefined Bonus'' ''reload'' 500])
     [unnamedOffer ''welcome'' 10] = Inr [] \<and>
   textOf ''offerName'' (unnamedOffer ''welcome'' 10) = None \<and>
   toLowerCase silentEnv ''reload'' \<noteq> toLowerCase silentEnv ''welcome'' \<and>
   \<not> \<bar>500 - 10\<bar> < (50 :: rat) \<and>
   isl (findNewOffers silentEnv
          (findCurrentOffers ''Acme Casino'' ''NJ'' [storedOffer ''Welcome Bonus'' ''welcome'' 100])
          [JObject [(''offerName'', amount 5)]])"
  by code_simp

text \<open>
  Claim C1, amended. When the comparison of the discovered offers of a venue with its
  reference offers (same venue name, same jurisdiction code, source \<^verbatim>\<open>internal-api\<close>)
  returns, a discovered offer is left out of the new offers (classified as already
  known) exactly when some reference offer of the venue has a name that contains the
  discovered name or is contained in it, letter case ignored, or has the same type,
  letter case ignored, and an expected bonus whose difference to the discovered one,
  computed in double precision, is less than 50 in absolute value. A name or a type is
  the text of the field when the field holds a string and is absent otherwise; an absent
  or falsy bonus counts as 0, two absent types as equal, and an absent name is
  contained in no name and contains none. The offers where an absent name meets a name
  that holds the word \<^verbatim>\<open>undefined\<close> are left aside.
\<close>

theorem offer_known_iff:
  assumes "findNewOffers e (findCurrentOffers cName abbrev os) discoveredOs = Inr new"
    and "dOffer \<in> set discoveredOs"
    and "textOf ''offerName'' dOffer = None \<longrightarrow>
           (\<forall>stored\<in>set (findCurrentOffers cName abbrev os). \<not> saysUndefined e (offerName stored))"
    and "\<forall>stored\<in>set (findCurrentOffers cName abbrev os).
           offerName stored = None \<longrightarrow> \<not> saysUndefined e (textOf ''offerName'' dOffer)"
  shows "dOffer \<notin> set new \<longleftrightarrow>
     (\<exists>stored\<in>set os.
        casinoName stored = cName \<and> offerStateAbbreviation stored = abbrev \<and>
        source stored = ''internal-api'' \<and>
        ((\<exists>sName dName. offerName stored = Some sName \<and> textOf ''offerName'' dOffer = Some dName \<and>
            (sublist (toLowerCase e dName) (toLowerCase e sName) \<or>
             sublist (toLowerCase e sName) (toLowerCase e dName))) \<or>
         (map_option (toLowerCase e) (offerType stored) =
            map_option (toLowerCase e) (textOf ''offerType'' dOffer) \<and>
          lessThan
            (absNumber (minusNumber (orZero (expectedBonus stored))
                          (toNumber e (orZeroJson (get ''expectedBonus'' dOffer)))))
            50)))"
proof -
  let ?cur = "findCurrentOffers cName abbrev os"
  let ?names = "\<lambda>stored. \<exists>sName dName. offerName stored = Some sName \<and>
            textOf ''offerName'' dOffer = Some dName \<and>
            (sublist (toLowerCase e dName) (toLowerCase e sName) \<or>
             sublist (toLowerCase e sName) (toLowerCase e dName))"
  let ?types = "\<lambda>stored. map_option (toLowerCase e) (offerType stored) =
            map_option (toLowerCase e) (textOf ''offerType'' dOffer) \<and> amountMatch e stored dOffer"
  from findNewOffers_Inr [OF assms(1,2)] obtain b where
    b: "offerExists e ?cur dOffer = Inr b" and new: "dOffer \<in> set new \<longleftrightarrow> \<not> b"
    by blast
  note some = offerExists_Inr [OF b]
  have rule: "offerMatches e stored dOffer = Inr True \<longleftrightarrow> ?names stored \<or> ?types stored"
    if "stored \<in> set ?cur" for stored
  proof -
    from some that obtain b' where b': "offerMatches e stored dOffer = Inr b'"
      by blast
    have names: "(case offerName stored of
              None \<Rightarrow> False
            | Some sName \<Rightarrow>
                str_includes (toLowerCase e sName)
                  (searchText (map_option (toLowerCase e) (textOf ''offerName'' dOffer)))) \<or>
           (case textOf ''offerName'' dOffer of
              None \<Rightarrow> False
            | Some dName \<Rightarrow>
                str_includes (toLowerCase e dName)
                  (searchText (map_option (toLowerCase e) (offerName stored)))) \<longleftrightarrow> ?names stored"
    proof (cases "offerName stored")
      case None
      with that assms(4) have "\<not> saysUndefined e (textOf ''offerName'' dOffer)" by blast
      with None show ?thesis
        by (auto simp: str_includes_def searchText_def saysUndefined_def split: option.splits)
    next
      case (Some sName)
      show ?thesis
      proof (cases "textOf ''offerName'' dOffer")
        case None
        with that assms(3) have "\<not> saysUndefined e (offerName stored)" by blast
        with None Some show ?thesis
          by (simp add: str_includes_def searchText_def saysUndefined_def)
      next
        case (Some dName)
        with \<open>offerName stored = Some sName\<close> show ?thesis
          by (auto simp: str_includes_def searchText_def)
      qed
    qed
    from offerMatches_Inr [OF b'] names have "b' \<longleftrightarrow> ?names stored \<or> ?types stored"
      by blast
    with b' show ?thesis by auto
  qed
  have "dOffer \<notin> set new \<longleftrightarrow> (\<exists>stored\<in>set ?cur. offerMatches e stored dOffer = Inr True)"
    using new some by blast
  also have "\<dots> \<longleftrightarrow> (\<exists>stored\<in>set ?cur. ?names stored \<or> ?types stored)"
    using rule by blast
  finally show ?thesis
    unfolding set_findCurrentOffers amountMatch_def by blast
qed

text \<open>
  Beside a stored bonus of 100 of type Welcome: a candidate of type welcome with an
  unrelated name is known at 140 (difference 40) and new at 160 (difference 60), and so
  is a candidate of type WELCOME without a name.
\<close>

theorem offer_known_iff_witness:
  "findNewOffers silentEnv (findCurrentOffers ''Acme Casino'' ''NJ'' [stored100])
     [bonusOffer ''Sign-Up Deal'' ''welcome'' 140, bonusOffer ''Sign-Up Deal'' ''welcome'' 160,
      unnamedOffer ''WELCOME'' 140, unnamedOffer ''WELCOME'' 160] =
     Inr [bonusOffer ''Sign-Up Deal'' ''welcome'' 160, unnamedOffer ''WELCOME'' 160] \<and>
   bonusOffer ''Sign-Up Deal'' ''welcome'' 140 \<notin>
     set [bonusOffer ''Sign-Up Deal'' ''welcome'' 160, unnamedOffer ''WELCOME'' 160] \<and>
   unnamedOffer ''WELCOME'' 140 \<notin>
     set [bonusOffer ''Sign-Up Deal'' ''welcome'' 160, unnamedOffer ''WELCOME'' 160]"
proof -
  let ?cur = "findCurrentOffers ''Acme Casino'' ''NJ'' [stored100]"
  let ?ds = "[bonusOffer ''Sign-Up Deal'' ''welcome'' 140, bonusOffer ''Sign-Up Deal'' ''welcome'' 160,
      unnamedOffer ''WELCOME'' 140, unnamedOffer ''WELCOME'' 160]"
  let ?new = "[bonusOffer ''Sign-Up Deal'' ''welcome'' 160, unnamedOffer ''WELCOME'' 160]"
  have cur: "?cur = [stored100]"
    by (simp add: findCurrentOffers_def stored100_def referenceOffer_def)
  have all: "findNewOffers silentEnv ?cur ?ds = Inr ?new"
    by code_simp
  have clean: "\<forall>stored\<in>set ?cur. \<not> saysUndefined silentEnv (offerName stored)"
    unfolding cur by code_simp
  then have h1: "textOf ''offerName'' d = None \<longrightarrow>
      (\<forall>stored\<in>set ?cur. \<not> saysUndefined silentEnv (offerName stored))" for d
    by simp
  have h2: "\<forall>stored\<in>set ?cur. offerName stored = None \<longrightarrow>
      \<not> saysUndefined silentEnv (textOf ''offerName'' d)" for d
    unfolding cur by (simp add: stored100_def referenceOffer_def)
  have "bonusOffer ''Sign-Up Deal'' ''welcome'' 140 \<in> set ?ds" and "unnamedOffer ''WELCOME'' 140 \<in> set ?ds"
    by simp_all
  note known = offer_known_iff [OF all this(1) h1 h2] offer_known_iff [OF all this(2) h1 h2]
  have venue: "casinoName stored100 = ''Acme Casino'' \<and> offerStateAbbreviation stored100 = ''NJ'' \<and>
      source stored100 = ''internal-api''"
    by (simp add: stored100_def referenceOffer_def)
  have close: "map_option (toLowerCase silentEnv) (offerType stored100) =
        map_option (toLowerCase silentEnv) (textOf ''offerType'' d) \<and>
      lessThan
        (absNumber (minusNumber (orZero (expectedBonus stored100))
                      (toNumber silentEnv (orZeroJson (get ''expectedBonus'' d)))))
        50"
    if "d \<in> {bonusOffer ''Sign-Up Deal'' ''welcome'' 140, unnamedOffer ''WELCOME'' 140}" for d
  proof -
    have "map_option (toLowerCase silentEnv) (offerType stored100) =
        map_option (toLowerCase silentEnv) (textOf ''offerType'' (bonusOffer ''Sign-Up Deal'' ''welcome'' 140)) \<and>
      lessThan
        (absNumber (minusNumber (orZero (expectedBonus stored100))
                      (toNumber silentEnv
                         (orZeroJson (get ''expectedBonus'' (bonusOffer ''Sign-Up Deal'' ''welcome'' 140))))))
        50"
      by code_simp
    moreover have "map_option (toLowerCase silentEnv) (offerType stored100) =
        map_option (toLowerCase silentEnv) (textOf ''offerType'' (unnamedOffer ''WELCOME'' 140)) \<and>
      lessThan
        (absNumber (minusNumber (orZero (expectedBonus stored100))
                      (toNumber silentEnv
                         (orZeroJson (get ''expectedBonus'' (unnamedOffer ''WELCOME'' 140))))))
        50"
      by code_simp
    ultimately show ?thesis
      using that by blast
  qed
  have c: "bonusOffer ''Sign-Up Deal'' ''welcome'' 140 \<notin> set ?new"
    unfolding known using venue close by simp
  have u: "unnamedOffer ''WELCOME'' 140 \<notin> set ?new"
    unfolding known using venue close by simp
  from all c u show ?thesis by simp
qed

section \<open>Claims on venue identity\<close>

text \<open>
  Claim C2, at its own example, on a database that rejects nothing. The reference venue
  Golden Nugget is stored for NJ and discovery returns the candidate whose name is the
  same after lower-casing and trimming. The pattern built from the candidate keeps its
  spaces, and the normalised name is compared with the stored name as it is, so the
  candidate is not found: it is reported as missing and stored as a second venue.
\<close>

theorem golden_nugget_not_matched:
  "trim goldenEnv (toLowerCase goldenEnv ''  golden nugget  '') =
     trim goldenEnv (toLowerCase goldenEnv ''Golden Nugget'') \<and>
   missingCasinos (run (startRun reliable goldenEnv [reference ''Golden Nugget''] [])) =
     [\<lparr>m_state = ''New Jersey'', m_casinos = [''  golden nugget  '']\<rparr>] \<and>
   map name (casinos (startRun reliable goldenEnv [reference ''Golden Nugget''] [])) =
     [''Golden Nugget'', ''  golden nugget  '']"
  by code_simp

text \<open>
  Claim C6, on an empty store and a database that rejects nothing. Discovery for NJ
  returns the same name twice, the second time with a space after it. Both candidates
  are stored, and the run completes with two venues under one identity key.
\<close>

theorem identity_key_duplicated:
  "status (run (startRun reliable twiceEnv [] [])) = Completed \<and>
   map (identityKey twiceEnv) (casinos (startRun reliable twiceEnv [] [])) =
     [(''golden nugget'', ''NJ''), (''golden nugget'', ''NJ'')] \<and>
   map discovered (casinos (startRun reliable twiceEnv [] [])) = [True, True]"
  by code_simp

section \<open>Claims on the stages and the run\<close>

text \<open>
  Claim C3. A stage returns the empty list when the call of the completion service
  fails, when the answer holds no text between braces, and when that text does not
  parse. When every discovery call and every research call returns the empty list, the
  run, on a database that rejects nothing, completes, stores no venue and no offer, and
  calls discovery for each jurisdiction and research for each stored venue of that
  jurisdiction, in order.
\<close>

theorem empty_results_complete:
  "(noJsonObject e (callClaudeAPI e (length (calls w)) (Discover stateName)) \<longrightarrow>
      (\<exists>w'. discoverCasinosByState e stateName w = Inr (JArray [], w'))) \<and>
   (noJsonObject e (callClaudeAPI e (length (calls w)) (Research cName stateName)) \<longrightarrow>
      (\<exists>w'. researchCasinoOffers e cName stateName w = Inr (JArray [], w'))) \<and>
   ((\<forall>n stateName. casinosOf e (callClaudeAPI e n (Discover stateName)) = JArray []) \<and>
    (\<forall>n cName stateName. offersOf e (callClaudeAPI e n (Research cName stateName)) = JArray []) \<longrightarrow>
      status (run (startRun reliable e cs os)) = Completed \<and>
      casinos (startRun reliable e cs os) = cs \<and>
      offers (startRun reliable e cs os) = os \<and>
      calls (startRun reliable e cs os) = expectedCalls cs)"
proof (intro conjI impI)
  assume "noJsonObject e (callClaudeAPI e (length (calls w)) (Discover stateName))"
  then show "\<exists>w'. discoverCasinosByState e stateName w = Inr (JArray [], w')"
    by (auto simp: noJsonObject_def discoverCasinosByState_def casinosOf_def propertyOf_def
             split: completion.splits option.splits)
next
  assume "noJsonObject e (callClaudeAPI e (length (calls w)) (Research cName stateName))"
  then show "\<exists>w'. researchCasinoOffers e cName stateName w = Inr (JArray [], w')"
    by (auto simp: noJsonObject_def researchCasinoOffers_def offersOf_def propertyOf_def
             split: completion.splits option.splits)
next
  assume empty: "(\<forall>n stateName. casinosOf e (callClaudeAPI e n (Discover stateName)) = JArray []) \<and>
    (\<forall>n cName stateName. offersOf e (callClaudeAPI e n (Research cName stateName)) = JArray [])"
  obtain w1 where before: "beforeLoop reliable e (initialWorld cs os) = Inr ((), w1)"
    and w1: "casinos w1 = cs" "offers w1 = os" "calls w1 = []"
    by (simp add: beforeLoop_def bind_def pushLog_def)
  from statesLoop_empty [of e states initialVars w1] empty
  obtain v w2 where
    loop: "statesLoop reliable e states initialVars w1 = Inr (v, w2)"
      "casinos w2 = cs" "offers w2 = os" "calls w2 = expectedCalls cs"
    by (auto simp: w1 expectedCalls_def)
  obtain W where after: "afterLoop reliable e v w2 = Inr ((), W)"
    by (simp add: afterLoop_def bind_def)
  from before loop(1) after have body: "researchBody reliable e (initialWorld cs os) = Inr ((), W)"
    unfolding researchBody_Inr by blast
  then have W: "startRun reliable e cs os = W"
    by (simp add: startRun_eq performResearch_Inr)
  from afterLoop_Inr [OF after] loop
  show "status (run (startRun reliable e cs os)) = Completed"
    "casinos (startRun reliable e cs os) = cs"
    "offers (startRun reliable e cs os) = os"
    "calls (startRun reliable e cs os) = expectedCalls cs"
    unfolding W by simp_all
qed

text \<open>
  A service that fails for New Jersey, answers Michigan without braces, Pennsylvania
  with a brace that is never closed and West Virginia with braces around text that does
  not parse, and that fails on every research call.
\<close>

theorem empty_results_complete_witness:
  "noJsonObject faultyEnv (callClaudeAPI faultyEnv (length (calls (initialWorld acmeStore acmeOffers)))
      (Discover ''Michigan'')) \<and>
   fst (projr (discoverCasinosByState faultyEnv ''Michigan'' (initialWorld acmeStore acmeOffers))) =
     JArray [] \<and>
   noJsonObject faultyEnv (callClaudeAPI faultyEnv (length (calls (initialWorld acmeStore acmeOffers)))
      (Research ''Acme Casino'' ''Michigan'')) \<and>
   fst (projr (researchCasinoOffers faultyEnv ''Acme Casino'' ''Michigan''
                 (initialWorld acmeStore acmeOffers))) = JArray [] \<and>
   status (run (startRun reliable faultyEnv acmeStore acmeOffers)) = Completed \<and>
   casinos (startRun reliable faultyEnv acmeStore acmeOffers) = acmeStore \<and>
   offers (startRun reliable faultyEnv acmeStore acmeOffers) = acmeOffers \<and>
   calls (startRun reliable faultyEnv acmeStore acmeOffers) =
     [Discover ''New Jersey'', Research ''Acme Casino'' ''New Jersey'', Discover ''Michigan'',
      Discover ''Pennsylvania'', Discover ''West Virginia'']"
proof -
  have d: "noJsonObject faultyEnv (callClaudeAPI faultyEnv (length (calls (initialWorld acmeStore acmeOffers)))
      (Discover ''Michigan''))"
    by code_simp
  have r: "noJsonObject faultyEnv (callClaudeAPI faultyEnv (length (calls (initialWorld acmeStore acmeOffers)))
      (Research ''Acme Casino'' ''Michigan''))"
    by code_simp
  have answers: "callClaudeAPI faultyEnv n (Discover stateName) \<in>
      {UpstreamError, Content ''I could not find any casinos.'', Content ''{\"casinos\": [ ...'',
       Content ''Sure! {casinos: none} Hope that helps.''}" for n stateName
    by (simp add: faultyEnv_def exampleEnv_def answering_def)
  have "casinosOf faultyEnv UpstreamError = JArray []"
    "casinosOf faultyEnv (Content ''I could not find any casinos.'') = JArray []"
    "casinosOf faultyEnv (Content ''{\"casinos\": [ ...'') = JArray []"
    "casinosOf faultyEnv (Content ''Sure! {casinos: none} Hope that helps.'') = JArray []"
    by code_simp+
  with answers have empty:
    "\<forall>n stateName. casinosOf faultyEnv (callClaudeAPI faultyEnv n (Discover stateName)) = JArray []"
    by (metis insertE singletonD)
  have "callClaudeAPI faultyEnv n (Research cName stateName) = UpstreamError" for n cName stateName
    by (simp add: faultyEnv_def exampleEnv_def answering_def)
  moreover have "offersOf faultyEnv UpstreamError = JArray []"
    by code_simp
  ultimately have none:
    "\<forall>n cName stateName. offersOf faultyEnv (callClaudeAPI faultyEnv n (Research cName stateName)) = JArray []"
    by simp
  have e: "expectedCalls acmeStore =
     [Discover ''New Jersey'', Research ''Acme Casino'' ''New Jersey'', Discover ''Michigan'',
      Discover ''Pennsylvania'', Discover ''West Virginia'']"
    by code_simp
  from empty_results_complete [of faultyEnv "initialWorld acmeStore acmeOffers" "''Michigan''"
      "''Acme Casino''" acmeStore acmeOffers] d r empty none e
  show ?thesis by auto
qed

text \<open>
  Claim C4 as it is stated fails on two runs on an empty store. In the first, on a
  database that rejects nothing, discovery for New Jersey returns Beta Casino and then a
  candidate without a name: Beta Casino was found missing and stored before the error,
  and the failed run document holds a summary without totals and no missing-venue entry.
  In the second the database rejects every operation: the error of the first read
  reaches the \<^verbatim>\<open>catch\<close> block, whose own log write is rejected, and the run document is
  left as it was created, in progress and with an empty log.
\<close>

theorem failed_run_holds_no_totals:
  "status (run (startRun reliable partialEnv [] [])) = Failed \<and>
   map name (casinos (startRun reliable partialEnv [] [])) = [''Beta Casino''] \<and>
   summary (run (startRun reliable partialEnv [] [])) =
     \<lparr>totalMissingCasinos = None, totalNewOffers = None, statesProcessed = []\<rparr> \<and>
   missingCasinos (run (startRun reliable partialEnv [] [])) = [] \<and>
   status (run (startRun (downFrom 0) partialEnv [] [])) = InProgress \<and>
   completedAt (run (startRun (downFrom 0) partialEnv [] [])) = None \<and>
   progressLog (run (startRun (downFrom 0) partialEnv [] [])) = []"
  by code_simp

text \<open>
  Claim C4, amended. When an error leaves the body of the \<^verbatim>\<open>try\<close> block and the database
  accepts the two writes of the \<^verbatim>\<open>catch\<close> block: the run document ends with status
  \<^verbatim>\<open>failed\<close>, a completion date, and no current jurisdiction or venue; its log is the log
  at the moment of the error followed by one line that holds the message of the error;
  the venues and offers stored up to the error, which extend those stored before the
  run, are all still stored, and no call is made after the error; the summary, the
  missing-venue list and the comparison list of the document are as they were before the
  run, because a failed run does not write them; and the error was thrown before the
  loop, or after it, or in one jurisdiction that the loop reached after returning from
  those before it, and then discovery was called for the jurisdictions before it and at
  most for it, and for none after it.
\<close>

theorem failure_semantics:
  assumes "researchBody f e w = Inl (thrown, w')"
    and "f (ops w') = None" and "f (Suc (ops w')) = None"
  shows "status (run (performResearch f e w)) = Failed \<and>
         completedAt (run (performResearch f e w)) \<noteq> None \<and>
         currentState (run (performResearch f e w)) = None \<and>
         currentCasino (run (performResearch f e w)) = None \<and>
         progressLog (run (performResearch f e w)) =
           progressLog (run w') @
             [''['' @ clock e (length (progressLog (run w'))) @ ''] '' @
              glyphFailed @ '' Research failed: '' @ message thrown] \<and>
         casinos (performResearch f e w) = casinos w' \<and> prefix (casinos w) (casinos w') \<and>
         offers (performResearch f e w) = offers w' \<and> prefix (offers w) (offers w') \<and>
         calls (performResearch f e w) = calls w' \<and> prefix (calls w) (calls w') \<and>
         summary (run (performResearch f e w)) = summary (run w) \<and>
         missingCasinos (run (performResearch f e w)) = missingCasinos (run w) \<and>
         offerComparisons (run (performResearch f e w)) = offerComparisons (run w) \<and>
         ((beforeLoop f e w = Inl (thrown, w') \<and>
           discoverCalls (performResearch f e w) = discoverCalls w) \<or>
          (\<exists>w1 before entry rest v0 w0.
             beforeLoop f e w = Inr ((), w1) \<and> states = before @ entry # rest \<and>
             statesLoop f e before initialVars w1 = Inr (v0, w0) \<and>
             processState f e entry v0 w0 = Inl (thrown, w') \<and>
             (discoverCalls (performResearch f e w) =
                discoverCalls w @ map (\<lambda>entry. Discover (snd entry)) before \<or>
              discoverCalls (performResearch f e w) =
                discoverCalls w @ map (\<lambda>entry. Discover (snd entry)) (before @ [entry]))) \<or>
          (\<exists>w1 v w2.
             beforeLoop f e w = Inr ((), w1) \<and> statesLoop f e states initialVars w1 = Inr (v, w2) \<and>
             afterLoop f e v w2 = Inl (thrown, w') \<and>
             discoverCalls (performResearch f e w) =
               discoverCalls w @ map (\<lambda>entry. Discover (snd entry)) states))"
proof -
  let ?line = "glyphFailed @ '' Research failed: '' @ message thrown"
  have W: "performResearch f e w =
             markFailed e ((pushLog e ?line (w'\<lparr>ops := Suc (ops w')\<rparr>))\<lparr>ops := Suc (Suc (ops w'))\<rparr>)"
    using assms by (simp add: performResearch_Inl researchFailed_world)
  have dc: "discoverCalls (performResearch f e w) = discoverCalls w'"
    unfolding W by (simp add: discoverCalls_def markFailed_def pushLog_def)
  from grows_thrown [OF assms(1)] have g: "grows w w'" .
  from body_calls [OF assms(1)] have where_thrown:
    "(beforeLoop f e w = Inl (thrown, w') \<and>
           discoverCalls (performResearch f e w) = discoverCalls w) \<or>
          (\<exists>w1 before entry rest v0 w0.
             beforeLoop f e w = Inr ((), w1) \<and> states = before @ entry # rest \<and>
             statesLoop f e before initialVars w1 = Inr (v0, w0) \<and>
             processState f e entry v0 w0 = Inl (thrown, w') \<and>
             (discoverCalls (performResearch f e w) =
                discoverCalls w @ map (\<lambda>entry. Discover (snd entry)) before \<or>
              discoverCalls (performResearch f e w) =
                discoverCalls w @ map (\<lambda>entry. Discover (snd entry)) (before @ [entry]))) \<or>
          (\<exists>w1 v w2.
             beforeLoop f e w = Inr ((), w1) \<and> statesLoop f e states initialVars w1 = Inr (v, w2) \<and>
             afterLoop f e v w2 = Inl (thrown, w') \<and>
             discoverCalls (performResearch f e w) =
               discoverCalls w @ map (\<lambda>entry. Discover (snd entry)) states)"
    unfolding dc .
  have fields: "status (run (performResearch f e w)) = Failed"
    "completedAt (run (performResearch f e w)) \<noteq> None"
    "currentState (run (performResearch f e w)) = None"
    "currentCasino (run (performResearch f e w)) = None"
    "progressLog (run (performResearch f e w)) =
           progressLog (run w') @
             [''['' @ clock e (length (progressLog (run w'))) @ ''] '' @ ?line]"
    "casinos (performResearch f e w) = casinos w'"
    "offers (performResearch f e w) = offers w'"
    "calls (performResearch f e w) = calls w'"
    "summary (run (performResearch f e w)) = summary (run w')"
    "missingCasinos (run (performResearch f e w)) = missingCasinos (run w')"
    "offerComparisons (run (performResearch f e w)) = offerComparisons (run w')"
    unfolding W by (simp_all add: markFailed_def pushLog_def)
  from g have kept: "prefix (casinos w) (casinos w')" "prefix (offers w) (offers w')"
    "prefix (calls w) (calls w')"
    "summary (run w') = summary (run w)" "missingCasinos (run w') = missingCasinos (run w)"
    "offerComparisons (run w') = offerComparisons (run w)"
    by (simp_all add: grows_def)
  show ?thesis
    using fields kept where_thrown by simp
qed

theorem failure_semantics_witness:
  "isl (researchBody reliable partialEnv (initialWorld [] [])) \<and>
   status (run (performResearch reliable partialEnv (initialWorld [] []))) = Failed \<and>
   completedAt (run (performResearch reliable partialEnv (initialWorld [] []))) \<noteq> None \<and>
   currentState (run (performResearch reliable partialEnv (initialWorld [] []))) = None \<and>
   currentCasino (run (performResearch reliable partialEnv (initialWorld [] []))) = None \<and>
   summary (run (performResearch reliable partialEnv (initialWorld [] []))) =
     \<lparr>totalMissingCasinos = None, totalNewOffers = None, statesProcessed = []\<rparr> \<and>
   missingCasinos (run (performResearch reliable partialEnv (initialWorld [] []))) = [] \<and>
   offerComparisons (run (performResearch reliable partialEnv (initialWorld [] []))) = []"
proof -
  have "isl (researchBody reliable partialEnv (initialWorld [] []))"
    by code_simp
  then obtain thrown w' where
    thrown: "researchBody reliable partialEnv (initialWorld [] []) = Inl (thrown, w')"
    by (cases "researchBody reliable partialEnv (initialWorld [] [])") auto
  have "reliable (ops w') = None" "reliable (Suc (ops w')) = None"
    by (simp_all add: reliable_def)
  from failure_semantics [OF thrown this] thrown show ?thesis
    by (simp add: createRun_def)
qed

text \<open>
  Claim C5. In a run that completes, the summary holds the sum of the lengths of the
  missing-venue entries and the sum of the lengths of the new-offer lists of the
  comparison entries, and no comparison entry has an empty new-offer list.
\<close>

theorem summary_totals:
  assumes "status (run (startRun f e cs os)) = Completed"
  shows "totalMissingCasinos (summary (run (startRun f e cs os))) =
           Some (sum_list (map (\<lambda>m. length (m_casinos m)) (missingCasinos (run (startRun f e cs os))))) \<and>
         totalNewOffers (summary (run (startRun f e cs os))) =
           Some (sum_list (map (\<lambda>c. length (newOffers c))
                   (offerComparisons (run (startRun f e cs os))))) \<and>
         list_all (\<lambda>c. newOffers c \<noteq> []) (offerComparisons (run (startRun f e cs os)))"
proof -
  have "status (run (initialWorld cs os)) \<noteq> Completed"
    by (simp add: createRun_def)
  with assms obtain W where body: "researchBody f e (initialWorld cs os) = Inr ((), W)"
    by (auto simp: startRun_eq completed_iff)
  then have W: "startRun f e cs os = W"
    by (simp add: startRun_eq performResearch_Inr)
  from body obtain w1 v w2 where
    p: "beforeLoop f e (initialWorld cs os) = Inr ((), w1)"
       "statesLoop f e states initialVars w1 = Inr (v, w2)"
       "afterLoop f e v w2 = Inr ((), W)"
    unfolding researchBody_Inr by blast
  from establishes_Inr [OF beforeLoop_tally exact_initial p(1)]
  have "exact os initialVars w1" .
  from establishes_Inr [OF statesLoop_tally this p(2)]
  have "counted v w2"
    by (simp add: exact_def)
  with afterLoop_Inr [OF p(3)] show ?thesis
    unfolding W by (simp add: counted_def countMissing_sum)
qed

theorem summary_totals_witness:
  "status (run (startRun reliable scenarioEnv acmeStore acmeOffers)) = Completed \<and>
   totalMissingCasinos (summary (run (startRun reliable scenarioEnv acmeStore acmeOffers))) = Some 1 \<and>
   totalNewOffers (summary (run (startRun reliable scenarioEnv acmeStore acmeOffers))) = Some 1 \<and>
   sum_list (map (\<lambda>m. length (m_casinos m))
      (missingCasinos (run (startRun reliable scenarioEnv acmeStore acmeOffers)))) = 1 \<and>
   sum_list (map (\<lambda>c. length (newOffers c))
      (offerComparisons (run (startRun reliable scenarioEnv acmeStore acmeOffers)))) = 1"
proof -
  have c: "status (run (startRun reliable scenarioEnv acmeStore acmeOffers)) = Completed"
    by code_simp
  have m: "sum_list (map (\<lambda>m. length (m_casinos m))
      (missingCasinos (run (startRun reliable scenarioEnv acmeStore acmeOffers)))) = 1"
    by code_simp
  have n: "sum_list (map (\<lambda>c. length (newOffers c))
      (offerComparisons (run (startRun reliable scenarioEnv acmeStore acmeOffers)))) = 1"
    by code_simp
  from summary_totals [OF c] c m n show ?thesis
    by simp
qed

text \<open>
  Claim C7 as it is stated fails on this run, on an empty store and a database that
  rejects nothing: discovery for New Jersey returns a candidate without a name, the run
  fails there, and discovery is never called for Michigan, Pennsylvania or West
  Virginia.
\<close>

theorem discover_not_called_after_failure:
  "status (run (startRun reliable namelessEnv [] [])) = Failed \<and>
   discoverCalls (startRun reliable namelessEnv [] []) = [Discover ''New Jersey''] \<and>
   discoverCalls (startRun reliable namelessEnv [] []) \<noteq>
     map Discover [''New Jersey'', ''Michigan'', ''Pennsylvania'', ''West Virginia'']"
  by code_simp

text \<open>
  Claim C7, amended. The discovery calls of a run are those of the jurisdictions New
  Jersey, Michigan, Pennsylvania, West Virginia, in this order and one call each, up to
  some jurisdiction. A run that completes has called discovery for all four. When the
  loop has returned from the jurisdictions before one of its entries and an error is
  thrown in that entry, the discovery calls of the run are those of the jurisdictions
  before the entry and at most that of the entry, which is among them when the error
  came after the first part of the entry, the part that ends after the discovery call;
  no call is made for a jurisdiction after the entry. A run that does not complete has
  thrown before the loop, in such an entry, or after the loop.
\<close>

theorem discover_calls_in_order:
  "prefix (discoverCalls (startRun f e cs os))
     (map Discover [''New Jersey'', ''Michigan'', ''Pennsylvania'', ''West Virginia'']) \<and>
   (status (run (startRun f e cs os)) = Completed \<longrightarrow>
      discoverCalls (startRun f e cs os) =
        map Discover [''New Jersey'', ''Michigan'', ''Pennsylvania'', ''West Virginia'']) \<and>
   (\<forall>w1 before entry rest v0 w0 thrown w'.
      beforeLoop f e (initialWorld cs os) = Inr ((), w1) \<and> states = before @ entry # rest \<and>
      statesLoop f e before initialVars w1 = Inr (v0, w0) \<and>
      processState f e entry v0 w0 = Inl (thrown, w') \<longrightarrow>
        (discoverCalls (startRun f e cs os) = map (\<lambda>entry. Discover (snd entry)) before \<or>
         discoverCalls (startRun f e cs os) = map (\<lambda>entry. Discover (snd entry)) (before @ [entry])) \<and>
        (\<forall>ds w5. discoverPhase f e (fst entry) (snd entry) w0 = Inr (ds, w5) \<longrightarrow>
           discoverCalls (startRun f e cs os) = map (\<lambda>entry. Discover (snd entry)) (before @ [entry]))) \<and>
   (status (run (startRun f e cs os)) \<noteq> Completed \<longrightarrow>
      (\<exists>thrown w'. beforeLoop f e (initialWorld cs os) = Inl (thrown, w')) \<or>
      (\<exists>w1 before entry rest v0 w0 thrown w'.
         beforeLoop f e (initialWorld cs os) = Inr ((), w1) \<and> states = before @ entry # rest \<and>
         statesLoop f e before initialVars w1 = Inr (v0, w0) \<and>
         processState f e entry v0 w0 = Inl (thrown, w')) \<or>
      (\<exists>w1 v w2 thrown w'.
         beforeLoop f e (initialWorld cs os) = Inr ((), w1) \<and>
         statesLoop f e states initialVars w1 = Inr (v, w2) \<and>
         afterLoop f e v w2 = Inl (thrown, w')))"
proof (intro conjI allI impI)
  show "prefix (discoverCalls (startRun f e cs os))
     (map Discover [''New Jersey'', ''Michigan'', ''Pennsylvania'', ''West Virginia''])"
  proof (cases "researchBody f e (initialWorld cs os)")
    case (Inl a)
    obtain thrown w' where a: "a = (thrown, w')" by (cases a)
    have W: "discoverCalls (startRun f e cs os) = discoverCalls w'"
      using Inl a by (simp add: startRun_eq performResearch_Inl discoverCalls_researchFailed)
    have first: "prefix (map (\<lambda>entry. Discover (snd entry)) before)
            (map (\<lambda>entry. Discover (snd entry)) (before @ entry # rest))"
      and second: "prefix (map (\<lambda>entry. Discover (snd entry)) (before @ [entry]))
            (map (\<lambda>entry. Discover (snd entry)) (before @ entry # rest))"
      for before :: "(string \<times> string) list" and entry rest
      by simp_all
    from body_calls [OF Inl [unfolded a]] consider
      (none) "discoverCalls w' = []"
      | (some) before entry rest where "states = before @ entry # rest"
          "discoverCalls w' = map (\<lambda>entry. Discover (snd entry)) before \<or>
           discoverCalls w' = map (\<lambda>entry. Discover (snd entry)) (before @ [entry])"
      | (all) "discoverCalls w' = map (\<lambda>entry. Discover (snd entry)) states"
      by (auto simp: discoverCalls_def)
    then have "prefix (discoverCalls w') (map (\<lambda>entry. Discover (snd entry)) states)"
    proof cases
      case none
      then show ?thesis by simp
    next
      case some
      from some(2) first [of before entry rest] second [of before entry rest] show ?thesis
        unfolding some(1) by auto
    next
      case all
      then show ?thesis by simp
    qed
    then show ?thesis
      unfolding W names_of_states .
  next
    case (Inr b)
    obtain u W where b: "b = (u, W)" by (cases b)
    from body_calls_returned [OF Inr [unfolded b]] Inr b
    have "discoverCalls (startRun f e cs os) = map (\<lambda>entry. Discover (snd entry)) states"
      by (simp add: startRun_eq performResearch_Inr discoverCalls_def)
    then show ?thesis
      unfolding names_of_states by simp
  qed
next
  assume "status (run (startRun f e cs os)) = Completed"
  moreover have "status (run (initialWorld cs os)) \<noteq> Completed"
    by (simp add: createRun_def)
  ultimately obtain W where body: "researchBody f e (initialWorld cs os) = Inr ((), W)"
    by (auto simp: startRun_eq completed_iff)
  from body_calls_returned [OF body] body
  have "discoverCalls (startRun f e cs os) = map (\<lambda>entry. Discover (snd entry)) states"
    by (simp add: startRun_eq performResearch_Inr discoverCalls_def)
  then show "discoverCalls (startRun f e cs os) =
        map Discover [''New Jersey'', ''Michigan'', ''Pennsylvania'', ''West Virginia'']"
    unfolding names_of_states .
next
  fix w1 before entry rest v0 w0 thrown w'
  assume d: "beforeLoop f e (initialWorld cs os) = Inr ((), w1) \<and> states = before @ entry # rest \<and>
      statesLoop f e before initialVars w1 = Inr (v0, w0) \<and>
      processState f e entry v0 w0 = Inl (thrown, w')"
  then have sts: "states = before @ entry # rest"
    and pre: "statesLoop f e before initialVars w1 = Inr (v0, w0)"
    by simp_all
  have "statesLoop f e states initialVars w1 = statesLoop f e (entry # rest) v0 w0"
    unfolding sts by (rule statesLoop_append [OF pre])
  with d have "statesLoop f e states initialVars w1 = Inl (thrown, w')"
    by (simp add: bind_thrown)
  with d have "researchBody f e (initialWorld cs os) = Inl (thrown, w')"
    unfolding researchBody_Inl by blast
  then have W: "discoverCalls (startRun f e cs os) = discoverCalls w'"
    by (simp add: startRun_eq performResearch_Inl discoverCalls_researchFailed)
  from d keeps_Inr [OF keeps_quiet_beforeLoop, of f e "initialWorld cs os" "()" w1]
  have "discoverCalls w1 = []"
    by (simp add: quiet_def discoverCalls_def)
  from establishes_Inr [OF statesLoop_calls this pre]
  have w0: "discoverCalls w0 = map (\<lambda>entry. Discover (snd entry)) before"
    by simp
  from d have thr: "processState f e entry v0 w0 = Inl (thrown, w')" by simp
  from entry_calls(1) [OF w0 thr]
  show "discoverCalls (startRun f e cs os) = map (\<lambda>entry. Discover (snd entry)) before \<or>
         discoverCalls (startRun f e cs os) = map (\<lambda>entry. Discover (snd entry)) (before @ [entry])"
    unfolding W by simp
  fix ds w5
  assume "discoverPhase f e (fst entry) (snd entry) w0 = Inr (ds, w5)"
  from entry_calls(2) [OF w0 thr this]
  show "discoverCalls (startRun f e cs os) = map (\<lambda>entry. Discover (snd entry)) (before @ [entry])"
    unfolding W by simp
next
  assume not: "status (run (startRun f e cs os)) \<noteq> Completed"
  have "status (run (initialWorld cs os)) \<noteq> Completed"
    by (simp add: createRun_def)
  from completed_iff [OF this, of f e] not
  have "\<not> (\<exists>W. researchBody f e (initialWorld cs os) = Inr ((), W))"
    by (simp add: startRun_eq)
  then obtain thrown w' where "researchBody f e (initialWorld cs os) = Inl (thrown, w')"
    by (cases "researchBody f e (initialWorld cs os)") auto
  then consider
    (before) "beforeLoop f e (initialWorld cs os) = Inl (thrown, w')"
    | (loop) w1 where "beforeLoop f e (initialWorld cs os) = Inr ((), w1)"
        "statesLoop f e states initialVars w1 = Inl (thrown, w')"
    | (after) w1 v w2 where "beforeLoop f e (initialWorld cs os) = Inr ((), w1)"
        "statesLoop f e states initialVars w1 = Inr (v, w2)"
        "afterLoop f e v w2 = Inl (thrown, w')"
    unfolding researchBody_Inl by blast
  then show "(\<exists>thrown w'. beforeLoop f e (initialWorld cs os) = Inl (thrown, w')) \<or>
      (\<exists>w1 before entry rest v0 w0 thrown w'.
         beforeLoop f e (initialWorld cs os) = Inr ((), w1) \<and> states = before @ entry # rest \<and>
         statesLoop f e before initialVars w1 = Inr (v0, w0) \<and>
         processState f e entry v0 w0 = Inl (thrown, w')) \<or>
      (\<exists>w1 v w2 thrown w'.
         beforeLoop f e (initialWorld cs os) = Inr ((), w1) \<and>
         statesLoop f e states initialVars w1 = Inr (v, w2) \<and>
         afterLoop f e v w2 = Inl (thrown, w'))"
  proof cases
    case before
    then show ?thesis by blast
  next
    case loop
    from statesLoop_Inl [OF loop(2)] loop(1) show ?thesis by blast
  next
    case after
    then show ?thesis by blast
  qed
qed

text \<open>
  The run of the scenario of claim C8 completes after four discovery calls; the run in
  which discovery for New Jersey returns a candidate without a name throws in the first
  entry of the loop, after the discovery call of that entry.
\<close>

theorem discover_calls_in_order_witness:
  "status (run (startRun reliable scenarioEnv acmeStore acmeOffers)) = Completed \<and>
   discoverCalls (startRun reliable scenarioEnv acmeStore acmeOffers) =
     map Discover [''New Jersey'', ''Michigan'', ''Pennsylvania'', ''West Virginia''] \<and>
   states = [] @ (''NJ'', ''New Jersey'') # tl states \<and>
   isl (bind (beforeLoop reliable namelessEnv)
          (\<lambda>u. processState reliable namelessEnv (''NJ'', ''New Jersey'') initialVars)
          (initialWorld [] [])) \<and>
   discoverCalls (startRun reliable namelessEnv [] []) = [Discover ''New Jersey''] \<and>
   status (run (startRun reliable namelessEnv [] [])) = Failed"
proof -
  have c: "status (run (startRun reliable scenarioEnv acmeStore acmeOffers)) = Completed"
    by code_simp
  have n: "status (run (startRun reliable namelessEnv [] [])) = Failed"
    by code_simp
  have s: "states = [] @ (''NJ'', ''New Jersey'') # tl states"
    by (simp add: states_def)
  have t: "isl (bind (beforeLoop reliable namelessEnv)
          (\<lambda>u. processState reliable namelessEnv (''NJ'', ''New Jersey'') initialVars)
          (initialWorld [] []))"
    by code_simp
  obtain w1 where b: "beforeLoop reliable namelessEnv (initialWorld [] []) = Inr ((), w1)"
    by (simp add: beforeLoop_def bind_def)
  with t obtain thrown w' where
    p: "processState reliable namelessEnv (''NJ'', ''New Jersey'') initialVars w1 = Inl (thrown, w')"
    by (cases "processState reliable namelessEnv (''NJ'', ''New Jersey'') initialVars w1")
       (auto simp: bind_returned)
  obtain ds w5 where
    dp: "discoverPhase reliable namelessEnv (fst (''NJ'', ''New Jersey'')) (snd (''NJ'', ''New Jersey'')) w1 =
           Inr (ds, w5)"
    by (simp add: discoverPhase_def bind_def discoverCasinosByState_def)
  have "statesLoop reliable namelessEnv [] initialVars w1 = Inr (initialVars, w1)"
    by simp
  with discover_calls_in_order [of reliable namelessEnv "[]" "[]"] b s p dp
  have "discoverCalls (startRun reliable namelessEnv [] []) =
          map (\<lambda>entry. Discover (snd entry)) ([] @ [(''NJ'', ''New Jersey'')])"
    by blast
  with discover_calls_in_order [of reliable scenarioEnv acmeStore acmeOffers] c n s t show ?thesis
    by simp
qed

text \<open>
  Claim C8, on a database that rejects nothing. The reference store holds Acme Casino
  (NJ) with the offer Welcome Bonus of type welcome and bonus 100. Discovery for New
  Jersey returns Acme Casino and Beta Casino; research returns Welcome Bonus (welcome,
  120) for Acme Casino and Sign-Up Bonus (welcome, 200) for Beta Casino. The run
  completes with one missing venue, Beta Casino under New Jersey, one comparison entry,
  for Beta Casino with the new offer Sign-Up Bonus, one offer inserted, for Beta Casino,
  and both totals of the summary 1.
\<close>

theorem end_to_end_scenario:
  "status (run (startRun reliable scenarioEnv acmeStore acmeOffers)) = Completed \<and>
   missingCasinos (run (startRun reliable scenarioEnv acmeStore acmeOffers)) =
     [\<lparr>m_state = ''New Jersey'', m_casinos = [''Beta Casino'']\<rparr>] \<and>
   map (\<lambda>c. (c_casinoName c, map v_name (newOffers c)))
     (offerComparisons (run (startRun reliable scenarioEnv acmeStore acmeOffers))) =
     [(''Beta Casino'', [Some (JString ''Sign-Up Bonus'')])] \<and>
   map (\<lambda>stored. (casinoName stored, offerName stored))
     (filter (\<lambda>stored. source stored = ''ai-research'')
        (offers (startRun reliable scenarioEnv acmeStore acmeOffers))) =
     [(''Beta Casino'', Some ''Sign-Up Bonus'')] \<and>
   summary (run (startRun reliable scenarioEnv acmeStore acmeOffers)) =
     \<lparr>totalMissingCasinos = Some 1, totalNewOffers = Some 1,
      statesProcessed = [''New Jersey'', ''Michigan'', ''Pennsylvania'', ''West Virginia'']\<rparr>"
  by code_simp

text \<open>
  Claim C9. Venue matching throws on a list that holds a candidate without a name (or
  one that is no object, or whose name is no string) or a candidate whose name the
  engine rejects as a pattern; and when the discovery of some jurisdiction returns such
  a list, an error leaves the body of the \<^verbatim>\<open>try\<close> block, whatever the database does, and
  on a database that rejects nothing the run ends with status \<^verbatim>\<open>failed\<close>, although the
  stage returned its list.
\<close>

theorem unmatchable_candidate_fails_run:
  assumes "(abbrev, stateName) \<in> set states"
    and "\<forall>n. \<exists>ds. casinosOf e (callClaudeAPI e n (Discover stateName)) = JArray ds \<and>
                    list_ex (unmatchable e) ds"
  shows "(\<forall>f ds missing w0. list_ex (unmatchable e) ds \<longrightarrow>
            isl (storeDiscovered f e stateName abbrev ds missing w0)) \<and>
         (\<forall>f. isl (researchBody f e w)) \<and>
         status (run (performResearch reliable e w)) = Failed"
proof -
  have body: "isl (researchBody f e w)" for f
    unfolding researchBody_def
    by (rule isl_bind) (rule isl_thrown [OF statesLoop_unmatchable [OF assms]])
  from body [of reliable] obtain thrown w' where "researchBody reliable e w = Inl (thrown, w')"
    by (cases "researchBody reliable e w") auto
  then have "status (run (performResearch reliable e w)) = Failed"
    by (simp add: performResearch_Inl researchFailed_world reliable_def markFailed_def)
  with body show ?thesis
    using storeDiscovered_unmatchable by blast
qed

text \<open>
  Discovery for Michigan returns a venue whose name opens a group and never closes it;
  discovery for New Jersey returns a candidate without a name.
\<close>

theorem unmatchable_candidate_fails_run_witness:
  "(''MI'', ''Michigan'') \<in> set states \<and>
   casinosOf groupEnv (callClaudeAPI groupEnv 0 (Discover ''Michigan'')) =
     JArray [venue ''Caesars (Windsor''] \<and>
   list_ex (unmatchable groupEnv) [venue ''Caesars (Windsor''] \<and>
   status (run (performResearch reliable groupEnv (initialWorld [] []))) = Failed \<and>
   (''NJ'', ''New Jersey'') \<in> set states \<and>
   casinosOf namelessEnv (callClaudeAPI namelessEnv 0 (Discover ''New Jersey'')) = JArray [nameless] \<and>
   list_ex (unmatchable namelessEnv) [nameless] \<and>
   status (run (performResearch reliable namelessEnv (initialWorld acmeStore acmeOffers))) = Failed"
proof -
  have mi: "(''MI'', ''Michigan'') \<in> set states" and nj: "(''NJ'', ''New Jersey'') \<in> set states"
    by (simp_all add: states_def)
  have g0: "casinosOf groupEnv (callClaudeAPI groupEnv 0 (Discover ''Michigan'')) =
     JArray [venue ''Caesars (Windsor'']"
    and g1: "list_ex (unmatchable groupEnv) [venue ''Caesars (Windsor'']"
    and n0: "casinosOf namelessEnv (callClaudeAPI namelessEnv 0 (Discover ''New Jersey'')) =
     JArray [nameless]"
    and n1: "list_ex (unmatchable namelessEnv) [nameless]"
    by code_simp+
  have g: "\<forall>n. \<exists>ds. casinosOf groupEnv (callClaudeAPI groupEnv n (Discover ''Michigan'')) = JArray ds \<and>
                    list_ex (unmatchable groupEnv) ds"
  proof
    fix n
    have "callClaudeAPI groupEnv n (Discover ''Michigan'') = callClaudeAPI groupEnv 0 (Discover ''Michigan'')"
      by (simp add: groupEnv_def exampleEnv_def answering_def)
    with g0 g1 show "\<exists>ds. casinosOf groupEnv (callClaudeAPI groupEnv n (Discover ''Michigan'')) = JArray ds \<and>
                    list_ex (unmatchable groupEnv) ds"
      by simp
  qed
  have n: "\<forall>n. \<exists>ds. casinosOf namelessEnv (callClaudeAPI namelessEnv n (Discover ''New Jersey'')) = JArray ds \<and>
                    list_ex (unmatchable namelessEnv) ds"
  proof
    fix n
    have "callClaudeAPI namelessEnv n (Discover ''New Jersey'') =
          callClaudeAPI namelessEnv 0 (Discover ''New Jersey'')"
      by (simp add: namelessEnv_def exampleEnv_def answering_def)
    with n0 n1 show "\<exists>ds. casinosOf namelessEnv (callClaudeAPI namelessEnv n (Discover ''New Jersey'')) = JArray ds \<and>
                    list_ex (unmatchable namelessEnv) ds"
      by simp
  qed
  from unmatchable_candidate_fails_run [OF mi g, of "initialWorld [] []"]
    unmatchable_candidate_fails_run [OF nj n, of "initialWorld acmeStore acmeOffers"] mi nj g0 g1 n0 n1
  show ?thesis by simp
qed




end
